theory Spec2Isabelle
  imports Complex_Main "HOL-Library.AList" "HOL-Library.Product_Lexorder"
begin

section \<open>Order store (database.py)\<close>

text \<open>
  The enums of database.py. The columns \<open>status\<close> and \<open>priority\<close> only ever receive
  the \<open>.value\<close> of an enum member (create_order, update_order_status, get_next_order,
  cancel_order), so a row carries the enum member itself; \<open>priority_value\<close> is the
  integer stored in the \<open>priority\<close> column, which the claim query sorts on.
\<close>

datatype OrderStatus =
  PENDING | PROCESSING | COMPLETED | FAILED | CANCELLED | REQUIRES_HUMAN | MANUAL_CONTROL

datatype OrderPriority = LOW | NORMAL | HIGH | URGENT

fun priority_value :: "OrderPriority \<Rightarrow> int" where
  "priority_value LOW = 1"
| "priority_value NORMAL = 2"
| "priority_value HIGH = 3"
| "priority_value URGENT = 4"

text \<open>
  A \<open>datetime\<close> is a number of seconds since the epoch (rational: the source has
  microsecond resolution), and the difference of two is exact, as a \<open>timedelta\<close> is.
  The current time \<open>datetime.now(timezone.utc)\<close> is an argument \<open>now\<close> of every
  operation that reads the clock. Where the source compares \<open>.total_seconds()\<close> of a
  difference with a whole number of seconds (the 1800 of the idle sweep), the model
  compares the exact difference: for timestamps a whole number of microseconds apart
  the float comparison has the same result. Where the source goes on to compute with
  the float (the durations of get_order_stats), the model does too.
\<close>

type_synonym datetime = rat

text \<open>
  A row of the \<open>orders\<close> table (class OrderModel), with the columns that the modelled
  operations read or write. Column \<open>id\<close> is \<open>order_id\<close> here. The dataclass Order
  returned to callers copies the row field by field (\<open>_model_to_order\<close>), so one record
  stands for both.
\<close>

record OrderModel =
  order_id :: string
  status :: OrderStatus
  priority :: OrderPriority
  created_at :: datetime
  updated_at :: datetime
  started_at :: "datetime option"
  completed_at :: "datetime option"
  progress :: int
  current_step :: "string option"
  order_confirmation_number :: "string option"
  tracking_number :: "string option"
  estimated_delivery :: "datetime option"
  error_message :: "string option"
  requires_human_review :: bool
  session_id :: "string option"

datatype error = ValueError string | DatabaseError | CancelledError

text \<open>
  The DatabaseManager: the table in storage order, whether the database answers, and
  the field \<open>use_postgres\<close> (the engine is PostgreSQL when the database URL says so, and
  the local SQLite file otherwise, which is the default). Every method opens a session
  and runs its query inside \<open>try\<close>; when the driver raises, the method logs and
  re-raises (\<open>get_order_stats\<close> returns zero counts instead). That failure is the case
  \<open>\<not> connected\<close>.
\<close>

record DatabaseManager =
  orders :: "OrderModel list"
  connected :: bool
  use_postgres :: bool

definition get_order :: "DatabaseManager \<Rightarrow> string \<Rightarrow> error + OrderModel option" where
  "get_order db oid =
     (if \<not> connected db then Inl DatabaseError
      else Inr (find (\<lambda>r. order_id r = oid) (orders db)))"

text \<open>
  get_next_order runs two statements in one session. The query is
  \<open>filter(status == PENDING).order_by(priority.desc(), created_at.asc())\<close>
  \<open>.with_for_update(skip_locked=True).first()\<close>: the sort is on the key
  \<open>(- priority, created_at)\<close> in lexicographic order, and rows equal on both keep their
  storage order. \<open>locked\<close> are the ids of the rows that other sessions have selected
  for update and not yet committed: PostgreSQL skips them, and SQLite ignores the
  clause (the source's comment says so) and returns them like any other row. Then the
  row found is marked PROCESSING with \<open>updated_at = started_at = now\<close>, an UPDATE by
  primary key, and committed; the order returned is the session's copy of the row with
  these marks.
\<close>

definition claim_key :: "OrderModel \<Rightarrow> int \<times> datetime" where
  "claim_key r = (- priority_value (priority r), created_at r)"

definition select_next_order :: "string list \<Rightarrow> DatabaseManager \<Rightarrow> OrderModel option" where
  "select_next_order locked db =
     (case sort_key claim_key
             (filter (\<lambda>r. status r = PENDING
                          \<and> (if use_postgres db then order_id r \<notin> set locked else True))
                (orders db)) of
        [] \<Rightarrow> None
      | order_model # _ \<Rightarrow> Some order_model)"

definition mark_processing ::
  "datetime \<Rightarrow> OrderModel \<Rightarrow> DatabaseManager \<Rightarrow> OrderModel \<times> DatabaseManager" where
  "mark_processing now order_model db =
     (order_model\<lparr>status := PROCESSING, updated_at := now, started_at := Some now\<rparr>,
      db\<lparr>orders :=
          map (\<lambda>r. if order_id r = order_id order_model
                   then r\<lparr>status := PROCESSING, updated_at := now, started_at := Some now\<rparr>
                   else r)
              (orders db)\<rparr>)"

text \<open>A call that no other session overlaps: no row is locked by anyone else.\<close>

definition get_next_order ::
  "datetime \<Rightarrow> DatabaseManager \<Rightarrow> error + (OrderModel option \<times> DatabaseManager)" where
  "get_next_order now db =
     (if \<not> connected db then Inl DatabaseError
      else case select_next_order [] db of
        None \<Rightarrow> Inr (None, db)
      | Some order_model \<Rightarrow>
          (case mark_processing now order_model db of
             (order, db') \<Rightarrow> Inr (Some order, db')))"

text \<open>
  Two calls that overlap (two schedulers, or two threads, on one database): the second
  session runs its query after the first session's query and before the first
  session's commit, so the row the first one selected is locked by it and still
  PENDING; then the first session updates and commits, then the second. The result is
  what each call returns, and the store after both.
\<close>

definition overlapping_claims ::
  "datetime \<Rightarrow> datetime \<Rightarrow> DatabaseManager \<Rightarrow>
   error + (OrderModel option \<times> OrderModel option \<times> DatabaseManager)" where
  "overlapping_claims now1 now2 db =
     (if \<not> connected db then Inl DatabaseError
      else
        (let selected1 = select_next_order [] db;
             selected2 = select_next_order
               (case selected1 of None \<Rightarrow> [] | Some r \<Rightarrow> [order_id r]) db;
             (order1, db1) =
               (case selected1 of
                  None \<Rightarrow> (None, db)
                | Some r \<Rightarrow> (case mark_processing now1 r db of (order, db') \<Rightarrow> (Some order, db')));
             (order2, db2) =
               (case selected2 of
                  None \<Rightarrow> (None, db1)
                | Some r \<Rightarrow> (case mark_processing now2 r db1 of (order, db') \<Rightarrow> (Some order, db')))
         in Inr (order1, order2, db2)))"

text \<open>
  update_order_status. The optional keyword arguments are a record whose fields are
  \<open>None\<close> when the argument is left out.
\<close>

record update_args =
  arg_progress :: "int option"
  arg_current_step :: "string option"
  arg_order_confirmation_number :: "string option"
  arg_tracking_number :: "string option"
  arg_estimated_delivery :: "datetime option"
  arg_error_message :: "string option"
  arg_requires_human_review :: "bool option"
  arg_session_id :: "string option"

definition no_args :: update_args where
  "no_args = \<lparr>arg_progress = None, arg_current_step = None,
     arg_order_confirmation_number = None, arg_tracking_number = None,
     arg_estimated_delivery = None, arg_error_message = None,
     arg_requires_human_review = None, arg_session_id = None\<rparr>"

definition set_fields :: "update_args \<Rightarrow> OrderModel \<Rightarrow> OrderModel" where
  "set_fields a r =
     r\<lparr>progress := (case arg_progress a of None \<Rightarrow> progress r | Some p \<Rightarrow> p),
       current_step := (case arg_current_step a of None \<Rightarrow> current_step r | Some s \<Rightarrow> Some s),
       order_confirmation_number :=
         (case arg_order_confirmation_number a of None \<Rightarrow> order_confirmation_number r
          | Some s \<Rightarrow> Some s),
       tracking_number :=
         (case arg_tracking_number a of None \<Rightarrow> tracking_number r | Some s \<Rightarrow> Some s),
       estimated_delivery :=
         (case arg_estimated_delivery a of None \<Rightarrow> estimated_delivery r | Some d \<Rightarrow> Some d),
       error_message :=
         (case arg_error_message a of None \<Rightarrow> error_message r | Some s \<Rightarrow> Some s),
       requires_human_review :=
         (case arg_requires_human_review a of None \<Rightarrow> requires_human_review r | Some b \<Rightarrow> b),
       session_id := (case arg_session_id a of None \<Rightarrow> session_id r | Some s \<Rightarrow> Some s)\<rparr>"

definition set_timestamps :: "datetime \<Rightarrow> OrderStatus \<Rightarrow> OrderModel \<Rightarrow> OrderModel" where
  "set_timestamps now st r =
     (if st = PROCESSING \<and> started_at r = None then r\<lparr>started_at := Some now\<rparr>
      else if st = COMPLETED \<or> st = FAILED \<or> st = CANCELLED then r\<lparr>completed_at := Some now\<rparr>
      else r)"

definition update_row :: "datetime \<Rightarrow> OrderStatus \<Rightarrow> update_args \<Rightarrow> OrderModel \<Rightarrow> OrderModel" where
  "update_row now st a r = set_timestamps now st (set_fields a (r\<lparr>status := st, updated_at := now\<rparr>))"

definition update_order_status ::
  "datetime \<Rightarrow> DatabaseManager \<Rightarrow> string \<Rightarrow> OrderStatus \<Rightarrow> update_args \<Rightarrow> error + DatabaseManager" where
  "update_order_status now db oid st a =
     (if \<not> connected db then Inl DatabaseError
      else case find (\<lambda>r. order_id r = oid) (orders db) of
        None \<Rightarrow> Inl (ValueError (''Order '' @ oid @ '' not found''))
      | Some order_model \<Rightarrow>
          Inr (db\<lparr>orders :=
                 map (\<lambda>r. if order_id r = oid then update_row now st a r else r) (orders db)\<rparr>))"

text \<open>
  cancel_order: one UPDATE over the rows with this id whose status is still PENDING;
  the result is whether a row matched.
\<close>

definition cancel_order ::
  "datetime \<Rightarrow> DatabaseManager \<Rightarrow> string \<Rightarrow> error + (bool \<times> DatabaseManager)" where
  "cancel_order now db oid =
     (if \<not> connected db then Inl DatabaseError
      else Inr (0 < length (filter (\<lambda>r. order_id r = oid \<and> status r = PENDING) (orders db)),
                db\<lparr>orders :=
                    map (\<lambda>r. if order_id r = oid \<and> status r = PENDING
                             then r\<lparr>status := CANCELLED, updated_at := now\<rparr> else r)
                        (orders db)\<rparr>))"

subsection \<open>Python floats\<close>

text \<open>
  A Python float is an IEEE 754 double: a rational whose magnitude is
  \<open>m * 2 ^ e\<close> with \<open>m < 2 ^ 53\<close>. \<open>to_double\<close> rounds a rational to the nearest
  double, a tie to the even mantissa, as every float operation of the source does with
  its exact result. (The exponent is not bounded here: the values of this program,
  durations of at least a microsecond and at most 7200 seconds, their sums and
  percentages, are far from the overflow and underflow of a double.)
  \<open>bit_length\<close> is Python's \<open>int.bit_length\<close> of a positive int, and \<open>floor_log2 x\<close> the integer \<open>k\<close>
  with \<open>2 ^ k \<le> x < 2 ^ (k + 1)\<close> for a positive \<open>x\<close>.
\<close>

function bit_length :: "int \<Rightarrow> int" where
  "bit_length n = (if n \<le> 0 then 0 else bit_length (n div 2) + 1)"
  by pat_completeness auto
termination
  by (relation "measure nat") auto

declare bit_length.simps [simp del]

definition pow2 :: "int \<Rightarrow> rat" where
  "pow2 e = (if 0 \<le> e then 2 ^ nat e else 1 / 2 ^ nat (- e))"

definition floor_log2 :: "rat \<Rightarrow> int" where
  "floor_log2 x =
     (case quotient_of x of
        (p, q) \<Rightarrow>
          (let k = bit_length p - bit_length q
           in if pow2 k \<le> x then k else k - 1))"

definition round_half_even :: "rat \<Rightarrow> int" where
  "round_half_even x =
     (let f = \<lfloor>x\<rfloor>; d = x - of_int f
      in if d < 1 / 2 then f else if 1 / 2 < d then f + 1 else if even f then f else f + 1)"

definition to_double :: "rat \<Rightarrow> rat" where
  "to_double x =
     (if x = 0 then 0
      else (let e = floor_log2 \<bar>x\<bar> - 52
            in sgn x * of_int (round_half_even (\<bar>x\<bar> / pow2 e)) * pow2 e))"

text \<open>
  Float addition, multiplication and true division (also of two ints, which Python
  rounds correctly), and \<open>timedelta.total_seconds()\<close>, the exact number of microseconds
  divided by \<open>10 ** 6\<close>. An int operand (a count of orders, the 100 of the
  percentage) is exact as a float.
\<close>

definition fadd :: "rat \<Rightarrow> rat \<Rightarrow> rat" where
  "fadd a b = to_double (a + b)"

definition fmul :: "rat \<Rightarrow> rat \<Rightarrow> rat" where
  "fmul a b = to_double (a * b)"

definition fdiv :: "rat \<Rightarrow> rat \<Rightarrow> rat" where
  "fdiv a b = to_double (a / b)"

definition total_seconds :: "rat \<Rightarrow> rat" where
  "total_seconds d = to_double d"

text \<open>
  Python's \<open>round(x, 2)\<close> of a float: the exact value of \<open>x\<close> is rounded to the nearest
  hundredth, a tie to the even one, and the decimal so found is read back as a double.
  (\<open>round(0, 2)\<close> of the int 0 is 0.)
\<close>

definition round2 :: "rat \<Rightarrow> rat" where
  "round2 x = to_double (of_int (round_half_even (x * 100)) / 100)"

subsection \<open>get_order_stats\<close>

text \<open>
  get_order_stats, for the keys the status counts, \<open>review_queue\<close>, \<open>total_orders\<close>,
  \<open>avg_processing_time\<close> and \<open>success_rate\<close> (\<open>orders_today\<close> and the two breakdown
  dictionaries are computed after them and are left out). When the database raises,
  the method returns the zero counts only.
\<close>

definition all_statuses :: "OrderStatus list" where
  "all_statuses = [PENDING, PROCESSING, COMPLETED, FAILED, CANCELLED, REQUIRES_HUMAN, MANUAL_CONTROL]"

definition count_status :: "OrderModel list \<Rightarrow> OrderStatus \<Rightarrow> nat" where
  "count_status rs st = length (filter (\<lambda>r. status r = st) rs)"

text \<open>The query: rows with status COMPLETED whose two timestamps are both set.\<close>

fun completed_orders_with_times :: "OrderModel list \<Rightarrow> (datetime \<times> datetime) list" where
  "completed_orders_with_times [] = []"
| "completed_orders_with_times (r # rs) =
     (case (started_at r, completed_at r) of
        (Some s, Some c) \<Rightarrow>
          (if status r = COMPLETED then (s, c) # completed_orders_with_times rs
           else completed_orders_with_times rs)
      | _ \<Rightarrow> completed_orders_with_times rs)"

text \<open>
  The loop over the query's rows, carrying \<open>(total_time, valid_orders)\<close>; \<open>total_time\<close>
  starts as the int 0 and is a float from the first addition on.
\<close>

fun sum_durations :: "(datetime \<times> datetime) list \<Rightarrow> rat \<times> nat \<Rightarrow> rat \<times> nat" where
  "sum_durations [] acc = acc"
| "sum_durations ((s, c) # xs) (total_time, valid_orders) =
     (if s < c then
        (let duration = total_seconds (c - s) in
         if 0 < duration \<and> duration \<le> 7200
         then sum_durations xs (fadd total_time duration, valid_orders + 1)
         else sum_durations xs (total_time, valid_orders))
      else sum_durations xs (total_time, valid_orders))"

definition avg_time :: "OrderModel list \<Rightarrow> rat" where
  "avg_time rs =
     (case completed_orders_with_times rs of
        [] \<Rightarrow> 0
      | x # xs \<Rightarrow>
          (case sum_durations (x # xs) (0, 0) of
             (total_time, valid_orders) \<Rightarrow>
               if 0 < valid_orders then fdiv total_time (of_nat valid_orders) else 0))"

record order_stats =
  status_count :: "OrderStatus \<Rightarrow> nat"
  review_queue :: "nat option"
  total_orders :: "nat option"
  avg_processing_time :: "rat option"
  success_rate :: "rat option"

definition get_order_stats :: "DatabaseManager \<Rightarrow> order_stats" where
  "get_order_stats db =
     (if \<not> connected db
      then \<lparr>status_count = (\<lambda>st. 0), review_queue = None, total_orders = None,
             avg_processing_time = None, success_rate = None\<rparr>
      else
        (let rs = orders db;
             total_finished = count_status rs COMPLETED + count_status rs FAILED
         in \<lparr>status_count = count_status rs,
              review_queue = Some (length (filter requires_human_review rs)),
              total_orders = Some (sum_list (map (count_status rs) all_statuses)),
              avg_processing_time = Some (round2 (avg_time rs)),
              success_rate =
                Some (if 0 < total_finished
                      then fmul (fdiv (of_nat (count_status rs COMPLETED)) (of_nat total_finished)) 100
                      else 0)\<rparr>))"

section \<open>Order scheduler (order_queue.py)\<close>

datatype QueueStatus = RUNNING | PAUSED | STOPPED

text \<open>
  An \<open>asyncio.Task\<close> as the scheduler sees it: not done, done with a result, done with
  an exception, or done by cancellation. What a per-order task does is the
  environment's part; the scheduler only creates, awaits, cancels and forgets tasks.
\<close>

datatype task_state = TaskRunning | TaskFinished | TaskRaised | TaskCancelled

text \<open>
  The OrderQueue fields the dispatch loop and \<open>cancel_order\<close> use. The dictionary
  \<open>processing_orders\<close> is an association list in insertion order with one entry per
  key (\<open>AList.update\<close> replaces, \<open>AList.delete\<close> removes). \<open>queue_task_alive\<close> says
  that the loop task \<open>_process_queue\<close> has not returned.
\<close>

record OrderQueue =
  queue_status :: QueueStatus
  paused :: bool
  shutdown_event :: bool
  queue_task_alive :: bool
  processing_orders :: "(string \<times> task_state) list"
  max_concurrent :: int
  queue_db :: DatabaseManager

definition started_queue :: "int \<Rightarrow> DatabaseManager \<Rightarrow> OrderQueue" where
  "started_queue n db =
     \<lparr>queue_status = RUNNING, paused = False, shutdown_event = False, queue_task_alive = True,
      processing_orders = [], max_concurrent = n, queue_db = db\<rparr>"

text \<open>
  One iteration of \<open>_process_queue\<close>, in its two halves. \<open>claim_and_start\<close> is the
  \<open>if\<close>/\<open>else\<close> up to the sleep that ends each branch; \<open>Inl\<close> is the exception of
  \<open>get_next_order\<close>, which the loop's \<open>except Exception\<close> logs before it sleeps and
  starts the next iteration.
\<close>

definition claim_and_start :: "datetime \<Rightarrow> OrderQueue \<Rightarrow> error + OrderQueue" where
  "claim_and_start now q =
     (if queue_status q = RUNNING \<and> int (length (processing_orders q)) < max_concurrent q
      then (case get_next_order now (queue_db q) of
              Inl e \<Rightarrow> Inl e
            | Inr (None, db') \<Rightarrow> Inr (q\<lparr>queue_db := db'\<rparr>)
            | Inr (Some order, db') \<Rightarrow>
                Inr (q\<lparr>queue_db := db',
                       processing_orders :=
                         AList.update (order_id order) TaskRunning (processing_orders q)\<rparr>))
      else Inr q)"

text \<open>
  \<open>_cleanup_completed_tasks\<close>: the first loop awaits every done task, collecting its
  id; a task done with an exception is logged, a cancelled one raises CancelledError
  out of the \<open>await\<close>, which \<open>except Exception\<close> does not catch. The second loop
  deletes the collected ids.
\<close>

fun await_done_tasks :: "(string \<times> task_state) list \<Rightarrow> error + string list" where
  "await_done_tasks [] = Inr []"
| "await_done_tasks ((oid, t) # rest) =
     (if t = TaskRunning then await_done_tasks rest
      else if t = TaskCancelled then Inl CancelledError
      else (case await_done_tasks rest of
              Inl e \<Rightarrow> Inl e
            | Inr completed_orders \<Rightarrow> Inr (oid # completed_orders)))"

fun delete_all :: "string list \<Rightarrow> (string \<times> task_state) list \<Rightarrow> (string \<times> task_state) list" where
  "delete_all [] al = al"
| "delete_all (oid # oids) al = delete_all oids (AList.delete oid al)"

definition cleanup_completed_tasks :: "OrderQueue \<Rightarrow> error + OrderQueue" where
  "cleanup_completed_tasks q =
     (case await_done_tasks (processing_orders q) of
        Inl e \<Rightarrow> Inl e
      | Inr completed_orders \<Rightarrow>
          Inr (q\<lparr>processing_orders := delete_all completed_orders (processing_orders q)\<rparr>))"

text \<open>
  The scheduler's events. \<open>Claim\<close> and \<open>Sweep\<close> are the two halves of a loop
  iteration (they run only while the loop task is alive and the shutdown event is
  clear; a CancelledError out of the sweep ends the loop task). Between them the loop
  sleeps, and the other coroutines run: a task ends (\<open>TaskEnds\<close>), the API pauses,
  resumes or cancels an order.
\<close>

definition pause :: "OrderQueue \<Rightarrow> OrderQueue" where
  "pause q = (if queue_status q = RUNNING then q\<lparr>queue_status := PAUSED, paused := True\<rparr> else q)"

definition resume :: "OrderQueue \<Rightarrow> OrderQueue" where
  "resume q = (if queue_status q = PAUSED then q\<lparr>queue_status := RUNNING, paused := False\<rparr> else q)"

text \<open>
  OrderQueue.cancel_order. \<open>await_result\<close> is how \<open>await task\<close> ends after
  \<open>task.cancel()\<close>: with CancelledError (caught), with the task's result (a task that
  absorbed the cancellation), or with another exception, which the method's outer
  \<open>except Exception\<close> turns into the result False. The list of actions is the order in
  which the method acts on the task, the dictionary and the store.
\<close>

datatype await_result = AwaitCancelled | AwaitReturned | AwaitRaised

datatype action = TaskCancel string | TaskAwait string | EntryDelete string | StoreCancel string

definition store_cancel ::
  "datetime \<Rightarrow> string \<Rightarrow> action list \<Rightarrow> OrderQueue \<Rightarrow> bool \<times> action list \<times> OrderQueue" where
  "store_cancel now oid acts q =
     (case cancel_order now (queue_db q) oid of
        Inl e \<Rightarrow> (False, acts @ [StoreCancel oid], q)
      | Inr (b, db') \<Rightarrow> (b, acts @ [StoreCancel oid], q\<lparr>queue_db := db'\<rparr>))"

definition queue_cancel_order ::
  "datetime \<Rightarrow> await_result \<Rightarrow> string \<Rightarrow> OrderQueue \<Rightarrow> bool \<times> action list \<times> OrderQueue" where
  "queue_cancel_order now res oid q =
     (case map_of (processing_orders q) oid of
        None \<Rightarrow> store_cancel now oid [] q
      | Some task \<Rightarrow>
          if task = TaskRunning then
            (case res of
               AwaitRaised \<Rightarrow>
                 (False, [TaskCancel oid, TaskAwait oid],
                  q\<lparr>processing_orders := AList.update oid TaskRaised (processing_orders q)\<rparr>)
             | _ \<Rightarrow>
                 store_cancel now oid [TaskCancel oid, TaskAwait oid, EntryDelete oid]
                   (q\<lparr>processing_orders := AList.delete oid (processing_orders q)\<rparr>))
          else
            store_cancel now oid [EntryDelete oid]
              (q\<lparr>processing_orders := AList.delete oid (processing_orders q)\<rparr>))"

datatype event =
    Claim datetime
  | Sweep
  | TaskEnds string task_state
  | Pause
  | Resume
  | CancelOrder datetime await_result string

fun step :: "event \<Rightarrow> OrderQueue \<Rightarrow> OrderQueue" where
  "step (Claim now) q =
     (if queue_task_alive q \<and> \<not> shutdown_event q
      then (case claim_and_start now q of Inl e \<Rightarrow> q | Inr q' \<Rightarrow> q')
      else q)"
| "step Sweep q =
     (if queue_task_alive q \<and> \<not> shutdown_event q
      then (case cleanup_completed_tasks q of
              Inl e \<Rightarrow> q\<lparr>queue_task_alive := False\<rparr>
            | Inr q' \<Rightarrow> q')
      else q)"
| "step (TaskEnds oid t) q =
     (if map_of (processing_orders q) oid = Some TaskRunning
      then q\<lparr>processing_orders := AList.update oid t (processing_orders q)\<rparr>
      else q)"
| "step Pause q = pause q"
| "step Resume q = resume q"
| "step (CancelOrder now res oid) q = snd (snd (queue_cancel_order now res oid q))"

fun run :: "event list \<Rightarrow> OrderQueue \<Rightarrow> OrderQueue" where
  "run [] q = q"
| "run (e # es) q = run es (step e q)"

section \<open>Automation agents (nova_act_agent.py, strands_agent.py)\<close>

text \<open>
  Both agent classes guard \<open>process_order\<close> with the flag \<open>_is_processing\<close> in the same
  way; they differ in the \<open>automation_method\<close> they report. \<open>process_order\<close> is a
  coroutine: the code up to \<open>self._is_processing = True\<close> runs without an \<open>await\<close>
  (\<open>process_order_enter\<close>), the automation then runs across many awaits, and the
  \<open>finally\<close> clause clears the flag when the call ends (\<open>process_order_exit\<close>).
  \<open>cleanup()\<close> of either class clears the flag too.
\<close>

datatype AgentKind = NovaActAgent | StrandsAgent

fun method_name :: "AgentKind \<Rightarrow> string" where
  "method_name NovaActAgent = ''nova_act''"
| "method_name StrandsAgent = ''strands''"

record agent =
  kind :: AgentKind
  is_processing :: bool

record process_result =
  success :: bool
  result_status :: string
  result_error :: "string option"
  automation_method :: string

definition already_processing :: "AgentKind \<Rightarrow> process_result" where
  "already_processing k =
     \<lparr>success = False, result_status = ''failed'',
      result_error = Some ''Another order is already being processed'',
      automation_method = method_name k\<rparr>"

definition process_order_enter :: "agent \<Rightarrow> process_result option \<times> agent" where
  "process_order_enter a =
     (if is_processing a then (Some (already_processing (kind a)), a)
      else (None, a\<lparr>is_processing := True\<rparr>))"

definition process_order_exit :: "agent \<Rightarrow> agent" where
  "process_order_exit a = a\<lparr>is_processing := False\<rparr>"

definition agent_cleanup :: "agent \<Rightarrow> agent" where
  "agent_cleanup a = a\<lparr>is_processing := False\<rparr>"

text \<open>
  The life of one agent instance as a sequence of events: a call of \<open>process_order\<close>
  is invoked (\<open>Invoke c\<close>, with \<open>c\<close> naming the call), a call that entered the
  automation ends (\<open>Return c\<close>), \<open>cleanup()\<close> runs. \<open>active\<close> lists the calls that are
  inside the automation, \<open>rejected\<close> the calls answered by the guard with their
  results; both only record what happened.
\<close>

datatype agent_event = Invoke nat | Return nat | Cleanup

record agent_run =
  the_agent :: agent
  active :: "nat list"
  rejected :: "(nat \<times> process_result) list"

fun agent_step :: "agent_event \<Rightarrow> agent_run \<Rightarrow> agent_run" where
  "agent_step (Invoke c) s =
     (case process_order_enter (the_agent s) of
        (Some r, a) \<Rightarrow> s\<lparr>the_agent := a, rejected := (c, r) # rejected s\<rparr>
      | (None, a) \<Rightarrow> s\<lparr>the_agent := a, active := c # active s\<rparr>)"
| "agent_step (Return c) s =
     (if c \<in> set (active s)
      then s\<lparr>the_agent := process_order_exit (the_agent s), active := removeAll c (active s)\<rparr>
      else s)"
| "agent_step Cleanup s = s\<lparr>the_agent := agent_cleanup (the_agent s)\<rparr>"

fun agent_trace :: "agent_event list \<Rightarrow> agent_run \<Rightarrow> agent_run" where
  "agent_trace [] s = s"
| "agent_trace (e # es) s = agent_trace es (agent_step e s)"

definition new_agent :: "AgentKind \<Rightarrow> agent_run" where
  "new_agent k = \<lparr>the_agent = \<lparr>kind = k, is_processing = False\<rparr>, active = [], rejected = []\<rparr>"

section \<open>Session registry (services/browser_service.py)\<close>

text \<open>
  How a call into an external resource (the AgentCore browser client, Playwright) ends:
  it returns, it raises, or it never returns.
\<close>

datatype 'a outcome = Returns 'a | Raises string | Hangs

text \<open>
  The browser client is duck-typed: each capability is \<open>None\<close> when the object has no
  such attribute (\<open>hasattr\<close> is False), and otherwise says how the call ends.
  \<open>generate_ws_headers\<close> gives the WebSocket URL of the pair it returns.
\<close>

record browser_client =
  client_stop :: "unit outcome option"
  generate_live_view_url :: "(int \<Rightarrow> string option outcome) option"
  client_get_live_view_url :: "(int \<Rightarrow> string option outcome) option"
  generate_ws_headers :: "string option outcome option"
  set_viewport_size :: "(int \<Rightarrow> int \<Rightarrow> unit outcome) option"

text \<open>
  The dataclass BrowserSession, with the fields the modelled methods read or write
  (\<open>bs_\<close> marks the names that OrderModel has too). \<open>playwright\<close> and \<open>browser\<close> are
  \<open>None\<close> when the attribute is None, and otherwise how awaiting \<open>stop()\<close>, \<open>close()\<close>
  ends.
\<close>

record BrowserSession =
  bs_session_id :: string
  bs_order_id :: string
  browser_id :: string
  browser_client :: "browser_client option"
  bs_status :: string
  bs_created_at :: datetime
  last_accessed :: datetime
  resolution :: "int \<times> int"
  manual_control :: bool
  current_url :: string
  playwright :: "unit outcome option"
  browser :: "unit outcome option"

record BrowserService =
  active_sessions :: "(string \<times> BrowserSession) list"
  active_clients :: "(string \<times> browser_client) list"
  db_manager :: "DatabaseManager option"

subsection \<open>get_live_view_url\<close>

text \<open>Python's \<open>str.replace(old, new)\<close>: the occurrences of \<open>old\<close>, left to right.\<close>

fun replace_from :: "nat \<Rightarrow> string \<Rightarrow> string \<Rightarrow> string \<Rightarrow> string" where
  "replace_from skip old new [] = []"
| "replace_from skip old new (c # cs) =
     (if 0 < skip then replace_from (skip - 1) old new cs
      else if take (length old) (c # cs) = old
      then new @ replace_from (length old - 1) old new cs
      else c # replace_from 0 old new cs)"

definition replace :: "string \<Rightarrow> string \<Rightarrow> string \<Rightarrow> string" where
  "replace old new s =
     (if old = [] then new @ concat (map (\<lambda>c. c # new) s) else replace_from 0 old new s)"

definition truthy :: "string option \<Rightarrow> bool" where
  "truthy u = (u \<noteq> None \<and> u \<noteq> Some [])"

datatype live_view_response =
    LiveView string string string int bool "int \<times> int" string
  | LiveViewError string "string option"

text \<open>
  The three attempts on the browser client. Each call is inside its own
  \<open>try\<close>/\<open>except Exception\<close>, so a raise leaves \<open>live_view_url\<close> as it was; a call that
  never returns blocks the method.
\<close>

definition method1 :: "browser_client \<Rightarrow> int \<Rightarrow> string option outcome" where
  "method1 c expires =
     (case generate_live_view_url c of
        None \<Rightarrow> Returns None
      | Some f \<Rightarrow> (case f expires of Returns u \<Rightarrow> Returns u | Raises e \<Rightarrow> Returns None | Hangs \<Rightarrow> Hangs))"

definition method2 :: "browser_client \<Rightarrow> int \<Rightarrow> string option \<Rightarrow> string option outcome" where
  "method2 c expires live_view_url =
     (if truthy live_view_url then Returns live_view_url
      else case client_get_live_view_url c of
        None \<Rightarrow> Returns live_view_url
      | Some f \<Rightarrow>
          (case f expires of
             Returns u \<Rightarrow> Returns u | Raises e \<Rightarrow> Returns live_view_url | Hangs \<Rightarrow> Hangs))"

definition method3 :: "browser_client \<Rightarrow> string option \<Rightarrow> string option outcome" where
  "method3 c live_view_url =
     (if truthy live_view_url then Returns live_view_url
      else case generate_ws_headers c of
        None \<Rightarrow> Returns live_view_url
      | Some out \<Rightarrow>
          (case out of
             Returns ws_url \<Rightarrow>
               (case ws_url of
                  Some w \<Rightarrow>
                    if w \<noteq> [] \<and> take 6 w = ''wss://''
                    then Returns (Some (replace ''/browser'' ''/live-view'' (replace ''wss://'' ''https://'' w)))
                    else Returns live_view_url
                | None \<Rightarrow> Returns live_view_url)
           | Raises e \<Rightarrow> Returns live_view_url
           | Hangs \<Rightarrow> Hangs))"

definition find_live_view_url :: "browser_client option \<Rightarrow> int \<Rightarrow> string option outcome" where
  "find_live_view_url bc expires =
     (case bc of
        None \<Rightarrow> Returns None
      | Some c \<Rightarrow>
          (case method1 c expires of
             Returns u1 \<Rightarrow>
               (case method2 c expires u1 of
                  Returns u2 \<Rightarrow> method3 c u2
                | other \<Rightarrow> other)
           | other \<Rightarrow> other))"

definition live_view_result ::
  "string \<Rightarrow> int \<Rightarrow> browser_client option \<Rightarrow> string \<Rightarrow> bool \<Rightarrow> int \<times> int \<Rightarrow> string \<Rightarrow>
   live_view_response outcome" where
  "live_view_result sid expires bc bid mc res cur =
     (case find_live_view_url bc expires of
        Returns u \<Rightarrow>
          (case u of
             Some url \<Rightarrow>
               if url \<noteq> [] then Returns (LiveView url sid bid expires mc res cur)
               else Returns (LiveViewError
                 ''Unable to generate live view URL - AgentCore session not active'' (Some sid))
           | None \<Rightarrow> Returns (LiveViewError
                 ''Unable to generate live view URL - AgentCore session not active'' (Some sid)))
      | Raises e \<Rightarrow> Returns (LiveViewError e None)
      | Hangs \<Rightarrow> Hangs)"

text \<open>
  The method returns the registry as it is when the call ends or blocks, and the
  response. A registered session gets \<open>last_accessed = now\<close> before the client is
  asked; a bare entry of \<open>active_clients\<close> is served through a temporary session object
  that has no \<open>last_accessed\<close>.
\<close>

definition get_live_view_url ::
  "datetime \<Rightarrow> BrowserService \<Rightarrow> string \<Rightarrow> int \<Rightarrow> BrowserService \<times> live_view_response outcome" where
  "get_live_view_url now svc sid expires =
     (case map_of (active_sessions svc) sid of
        Some session \<Rightarrow>
          (svc\<lparr>active_sessions :=
                 AList.update sid (session\<lparr>last_accessed := now\<rparr>) (active_sessions svc)\<rparr>,
           live_view_result sid expires (browser_client session) (browser_id session)
             (manual_control session) (resolution session) (current_url session))
      | None \<Rightarrow>
          (case map_of (active_clients svc) sid of
             None \<Rightarrow> (svc, Returns (LiveViewError (''Session '' @ sid @ '' not found'') None))
           | Some c \<Rightarrow>
               (svc, live_view_result sid expires (Some c) (''browser_'' @ take 8 sid)
                       False (1280, 720) ''about:blank'')))"

subsection \<open>cleanup_session and the sweeps\<close>

text \<open>
  The protection check that \<open>cleanup_session\<close> (when not forced) and
  \<open>cleanup_expired_sessions\<close> both make: the service has a database manager, the lookup
  of the order whose id is the session id does not raise, and that order's status is
  \<open>requires_human\<close>. A lookup that raises is logged and protects nothing.
\<close>

definition is_protected :: "BrowserService \<Rightarrow> string \<Rightarrow> bool" where
  "is_protected svc sid =
     (case db_manager svc of
        None \<Rightarrow> False
      | Some db \<Rightarrow>
          (case get_order db sid of
             Inr (Some order) \<Rightarrow> status order = REQUIRES_HUMAN
           | Inr None \<Rightarrow> False
           | Inl e \<Rightarrow> False))"

definition check_warnings :: "BrowserService \<Rightarrow> string \<Rightarrow> bool \<Rightarrow> string list" where
  "check_warnings svc sid force =
     (case db_manager svc of
        None \<Rightarrow> []
      | Some db \<Rightarrow>
          (case get_order db sid of
             Inl e \<Rightarrow> if force then [] else [''Could not check order status'']
           | Inr r \<Rightarrow> []))"

text \<open>
  The coroutine \<open>cleanup_playwright\<close>: \<open>browser.close()\<close> and \<open>playwright.stop()\<close>, each
  under \<open>asyncio.wait_for(..., timeout=3.0)\<close> and its own \<open>try\<close>: a call that never
  returns ends in TimeoutError after three seconds. Nothing but the log depends on how
  they end. \<open>asyncio.run\<close> raises RuntimeError when the caller is itself inside a
  running event loop (\<open>in_loop\<close>); the coroutine then never runs.
\<close>

definition release_warnings :: "string \<Rightarrow> string \<Rightarrow> unit outcome option \<Rightarrow> string list" where
  "release_warnings timed_out failed r =
     (case r of
        None \<Rightarrow> []
      | Some out \<Rightarrow> (case out of Returns u \<Rightarrow> [] | Raises e \<Rightarrow> [failed @ e] | Hangs \<Rightarrow> [timed_out]))"

definition cleanup_playwright :: "bool \<Rightarrow> BrowserSession \<Rightarrow> string list" where
  "cleanup_playwright in_loop session =
     (if in_loop then [''Failed to run Playwright cleanup'']
      else release_warnings ''Browser close timed out'' ''Error closing browser: '' (browser session)
         @ release_warnings ''Playwright stop timed out'' ''Error stopping playwright: ''
             (playwright session))"

definition stop_browser_client :: "BrowserSession \<Rightarrow> unit outcome" where
  "stop_browser_client session =
     (case browser_client session of
        None \<Rightarrow> Returns ()
      | Some c \<Rightarrow> (case client_stop c of None \<Rightarrow> Returns () | Some out \<Rightarrow> out))"

text \<open>
  What a call of \<open>cleanup_session\<close> leaves: the registry as it is when the call returns
  or blocks, the session object it found in \<open>active_sessions\<close> (other components keep
  references to it), the warnings it logged, and whether it returned. The call to
  \<open>browser_client.stop()\<close> is made directly, inside \<open>with self.session_lock\<close>;
  \<open>session.status = "terminated"\<close> is the statement after it in the same \<open>try\<close>.
\<close>

record cleanup_result =
  service :: BrowserService
  handle :: "BrowserSession option"
  warnings :: "string list"
  returned :: "unit outcome"

definition remove_session :: "string \<Rightarrow> BrowserService \<Rightarrow> BrowserService" where
  "remove_session sid svc =
     svc\<lparr>active_sessions := AList.delete sid (active_sessions svc),
         active_clients := AList.delete sid (active_clients svc)\<rparr>"

definition cleanup_session :: "bool \<Rightarrow> BrowserService \<Rightarrow> string \<Rightarrow> bool \<Rightarrow> cleanup_result" where
  "cleanup_session in_loop svc sid force =
     (if \<not> force \<and> is_protected svc sid
      then \<lparr>service = svc, handle = None, warnings = [], returned = Returns ()\<rparr>
      else case map_of (active_sessions svc) sid of
        None \<Rightarrow>
          \<lparr>service = svc\<lparr>active_clients := AList.delete sid (active_clients svc)\<rparr>,
           handle = None, warnings = check_warnings svc sid force, returned = Returns ()\<rparr>
      | Some session \<Rightarrow>
          (let w = check_warnings svc sid force @ cleanup_playwright in_loop session
           in case stop_browser_client session of
                Returns u \<Rightarrow>
                  \<lparr>service = remove_session sid svc,
                   handle = Some (session\<lparr>bs_status := ''terminated''\<rparr>),
                   warnings = w, returned = Returns ()\<rparr>
              | Raises e \<Rightarrow>
                  \<lparr>service = remove_session sid svc, handle = Some session,
                   warnings = w @ [''Error stopping browser client: '' @ e],
                   returned = Returns ()\<rparr>
              | Hangs \<Rightarrow>
                  \<lparr>service = svc, handle = Some session, warnings = w, returned = Hangs\<rparr>))"

text \<open>
  cleanup_expired_sessions: the sessions that are not protected and were last accessed
  more than 1800 seconds ago are collected under the lock, then each is cleaned up with
  \<open>force\<close> left at its default False.
\<close>

definition expired_sessions :: "datetime \<Rightarrow> BrowserService \<Rightarrow> string list" where
  "expired_sessions now svc =
     map fst (filter (\<lambda>(sid, session). \<not> is_protected svc sid \<and> 1800 < now - last_accessed session)
                (active_sessions svc))"

fun cleanup_each :: "bool \<Rightarrow> string list \<Rightarrow> BrowserService \<Rightarrow> BrowserService \<times> unit outcome" where
  "cleanup_each in_loop [] svc = (svc, Returns ())"
| "cleanup_each in_loop (sid # rest) svc =
     (let r = cleanup_session in_loop svc sid False
      in case returned r of
           Hangs \<Rightarrow> (service r, Hangs)
         | other \<Rightarrow> cleanup_each in_loop rest (service r))"

definition cleanup_expired_sessions ::
  "bool \<Rightarrow> datetime \<Rightarrow> BrowserService \<Rightarrow> BrowserService \<times> unit outcome" where
  "cleanup_expired_sessions in_loop now svc = cleanup_each in_loop (expired_sessions now svc) svc"

subsection \<open>change_browser_resolution\<close>







section \<open>Concrete stores, queues and sessions\<close>

text \<open>
  A row as create_order inserts it: PENDING, \<open>created_at = updated_at\<close> the time of
  creation, \<open>progress\<close> 0, \<open>requires_human_review\<close> False, everything else unset. The
  spec's scenario: three orders created in the order URGENT, NORMAL, HIGH, at the
  times 1, 2 and 3.
\<close>

definition pending_row :: "string \<Rightarrow> OrderPriority \<Rightarrow> datetime \<Rightarrow> OrderModel" where
  "pending_row oid prio t =
     \<lparr>order_id = oid, status = PENDING, priority = prio, created_at = t,
      updated_at = t, started_at = None, completed_at = None, progress = 0,
      current_step = None, order_confirmation_number = None, tracking_number = None,
      estimated_delivery = None, error_message = None, requires_human_review = False,
      session_id = None\<rparr>"

definition three_orders :: DatabaseManager where
  "three_orders =
     \<lparr>orders = [pending_row ''a'' URGENT 1, pending_row ''b'' NORMAL 2, pending_row ''c'' HIGH 3],
      connected = True, use_postgres = False\<rparr>"

text \<open>A queue whose only task is the in-flight task of order \<open>a\<close>, claimed at time 5.\<close>

definition one_in_flight :: OrderQueue where
  "one_in_flight =
     \<lparr>queue_status = RUNNING, paused = False, shutdown_event = False, queue_task_alive = True,
      processing_orders = [(''a'', TaskRunning)], max_concurrent = 1,
      queue_db = \<lparr>orders =
          [(pending_row ''a'' URGENT 1)\<lparr>status := PROCESSING, updated_at := 5, started_at := Some 5\<rparr>,
           pending_row ''b'' NORMAL 2],
        connected = True, use_postgres = False\<rparr>\<rparr>"

text \<open>
  Histories of one order. \<open>and_then\<close> runs the next store call on the store the previous
  one left; \<open>timestamps\<close> reads \<open>(started_at, completed_at)\<close> of the order's row.
  \<open>completed_once\<close>: the order is claimed at time 10 and the agent's last progress
  callback (status \<open>completed\<close>, progress 100) reaches update_order_status at time
  20. \<open>completed_twice\<close>: \<open>_process_order\<close> then writes the final status COMPLETED at
  time 21, as it does for every successful result. \<open>failed_then_retried\<close>: the order
  fails at 20, the retry endpoint sets it back to PENDING at 30, and the scheduler claims
  it again at 40.
\<close>

definition and_then ::
  "error + DatabaseManager \<Rightarrow> (DatabaseManager \<Rightarrow> error + DatabaseManager) \<Rightarrow> error + DatabaseManager" where
  "and_then r f = (case r of Inl e \<Rightarrow> Inl e | Inr db \<Rightarrow> f db)"

definition claim_next :: "datetime \<Rightarrow> DatabaseManager \<Rightarrow> error + DatabaseManager" where
  "claim_next now db = (case get_next_order now db of Inl e \<Rightarrow> Inl e | Inr (order, db') \<Rightarrow> Inr db')"

definition timestamps :: "string \<Rightarrow> error + DatabaseManager \<Rightarrow> (datetime option \<times> datetime option) list" where
  "timestamps oid r =
     (case r of
        Inl e \<Rightarrow> []
      | Inr db \<Rightarrow> map (\<lambda>r. (started_at r, completed_at r)) (filter (\<lambda>r. order_id r = oid) (orders db)))"

definition one_order :: DatabaseManager where
  "one_order = \<lparr>orders = [pending_row ''a'' NORMAL 1], connected = True, use_postgres = False\<rparr>"

definition completed_once :: "error + DatabaseManager" where
  "completed_once =
     and_then (claim_next 10 one_order)
       (\<lambda>db. update_order_status 20 db ''a'' COMPLETED (no_args\<lparr>arg_progress := Some 100\<rparr>))"

definition completed_twice :: "error + DatabaseManager" where
  "completed_twice =
     and_then completed_once
       (\<lambda>db. update_order_status 21 db ''a'' COMPLETED (no_args\<lparr>arg_progress := Some 100\<rparr>))"

definition failed_then_retried :: "error + DatabaseManager" where
  "failed_then_retried =
     and_then (and_then (and_then (claim_next 10 one_order)
       (\<lambda>db. update_order_status 20 db ''a'' FAILED no_args))
       (\<lambda>db. update_order_status 30 db ''a'' PENDING no_args))
       (claim_next 40)"

text \<open>
  The durations that the claim about get_order_stats counts, in the claim's words: of
  the COMPLETED orders with both timestamps, the duration \<open>completed_at - started_at\<close>
  in seconds where it is positive and at most 7200.
\<close>

definition duration_of :: "OrderModel \<Rightarrow> rat" where
  "duration_of r = total_seconds (the (completed_at r) - the (started_at r))"

definition counted_durations :: "OrderModel list \<Rightarrow> rat list" where
  "counted_durations rs =
     map duration_of
       (filter (\<lambda>r. status r = COMPLETED \<and> started_at r \<noteq> None \<and> completed_at r \<noteq> None
                  \<and> 0 < duration_of r \<and> duration_of r \<le> 7200) rs)"

text \<open>
  Two completed orders (one took 60 seconds, one 8990) and two failed ones; and a store
  with one completed order, which took a third of a second, and two failed ones.
\<close>

definition two_finished :: DatabaseManager where
  "two_finished =
     \<lparr>orders =
        [(pending_row ''a'' NORMAL 1)\<lparr>status := COMPLETED, started_at := Some 10, completed_at := Some 70\<rparr>,
         (pending_row ''b'' NORMAL 2)\<lparr>status := FAILED, started_at := Some 10, completed_at := Some 30\<rparr>,
         (pending_row ''c'' NORMAL 3)\<lparr>status := COMPLETED, started_at := Some 10, completed_at := Some 9000\<rparr>,
         (pending_row ''d'' NORMAL 4)\<lparr>status := FAILED, started_at := Some 10, completed_at := Some 30\<rparr>],
      connected = True, use_postgres = False\<rparr>"

definition one_of_three :: DatabaseManager where
  "one_of_three =
     \<lparr>orders =
        [(pending_row ''a'' NORMAL 1)\<lparr>status := COMPLETED, started_at := Some 10,
           completed_at := Some (10 + 333333 / 1000000)\<rparr>,
         (pending_row ''b'' NORMAL 2)\<lparr>status := FAILED, started_at := Some 10, completed_at := Some 30\<rparr>,
         (pending_row ''c'' NORMAL 3)\<lparr>status := FAILED, started_at := Some 10, completed_at := Some 30\<rparr>],
      connected = True, use_postgres = False\<rparr>"

text \<open>The bound on the active-task map, as a predicate on the scheduler's state.\<close>

definition within_capacity :: "OrderQueue \<Rightarrow> bool" where
  "within_capacity q = (int (length (processing_orders q)) \<le> max_concurrent q)"

text \<open>
  A sequence of agent events in which \<open>cleanup()\<close> runs only while no call is inside the
  automation, as in \<open>_process_order\<close>, which awaits \<open>process_order\<close> before it cleans the
  agent up. \<open>guarded\<close> is what the flag then maintains.
\<close>

fun cleanup_when_idle :: "agent_event list \<Rightarrow> agent_run \<Rightarrow> bool" where
  "cleanup_when_idle [] s = True"
| "cleanup_when_idle (e # es) s =
     ((e \<noteq> Cleanup \<or> active s = []) \<and> cleanup_when_idle es (agent_step e s))"

definition guarded :: "AgentKind \<Rightarrow> agent_run \<Rightarrow> bool" where
  "guarded k s =
     (kind (the_agent s) = k \<and> length (active s) \<le> 1
      \<and> (is_processing (the_agent s) \<longleftrightarrow> active s \<noteq> [])
      \<and> (\<forall>p\<in>set (rejected s). snd p = already_processing k))"

text \<open>
  A registry with one session \<open>a\<close>, last accessed at time 0, whose browser client's
  \<open>stop()\<close> ends as given; its Playwright browser never answers \<open>close()\<close>. The client
  is also listed in \<open>active_clients\<close>.
\<close>

definition client_with_stop :: "unit outcome \<Rightarrow> browser_client" where
  "client_with_stop out =
     \<lparr>client_stop = Some out,
      generate_live_view_url = Some (\<lambda>expires. Returns (Some ''https://live.example/view'')),
      client_get_live_view_url = None,
      generate_ws_headers = Some (Returns (Some ''wss://host.example/browser'')),
      set_viewport_size = None\<rparr>"

definition session_with :: "string \<Rightarrow> browser_client \<Rightarrow> datetime \<Rightarrow> BrowserSession" where
  "session_with sid c t =
     \<lparr>bs_session_id = sid, bs_order_id = sid, browser_id = ''browser-1'',
      browser_client = Some c, bs_status = ''active'', bs_created_at = t, last_accessed = t,
      resolution = (1280, 720), manual_control = False, current_url = ''about:blank'',
      playwright = Some (Returns ()), browser = Some Hangs\<rparr>"

definition registry_with :: "unit outcome \<Rightarrow> DatabaseManager option \<Rightarrow> BrowserService" where
  "registry_with out db =
     \<lparr>active_sessions = [(''a'', session_with ''a'' (client_with_stop out) 0)],
      active_clients = [(''a'', client_with_stop out)],
      db_manager = db\<rparr>"

text \<open>
  A store in which order \<open>a\<close> waits for a human and order \<open>b\<close> is being processed, and a
  registry with a session for each, both last accessed at time 0.
\<close>

definition human_store :: DatabaseManager where
  "human_store =
     \<lparr>orders = [(pending_row ''a'' NORMAL 0)\<lparr>status := REQUIRES_HUMAN, started_at := Some 0,
                   requires_human_review := True\<rparr>,
                 (pending_row ''b'' NORMAL 0)\<lparr>status := PROCESSING, started_at := Some 0\<rparr>],
      connected = True, use_postgres = False\<rparr>"

definition two_sessions :: BrowserService where
  "two_sessions =
     \<lparr>active_sessions = [(''a'', session_with ''a'' (client_with_stop (Returns ())) 0),
                         (''b'', session_with ''b'' (client_with_stop (Returns ())) 0)],
      active_clients = [],
      db_manager = Some human_store\<rparr>"


section \<open>The order store: claiming and cancelling\<close>

lemma sort_key_head:
  assumes "sort_key f xs = y # ys"
  shows "y \<in> set xs \<and> (\<forall>x\<in>set xs. f y \<le> f x)"
proof -
  have "set (y # ys) = set xs" using assms set_sort[of f xs] by simp
  moreover have "sorted (map f (y # ys))" using assms sorted_sort_key[of f xs] by simp
  ultimately show ?thesis by auto
qed

lemma claim_key_le:
  "claim_key a \<le> claim_key b \<longleftrightarrow>
     priority_value (priority b) < priority_value (priority a)
     \<or> (priority_value (priority b) = priority_value (priority a) \<and> created_at a \<le> created_at b)"
  by (auto simp: claim_key_def less_eq_prod_def)

lemma get_next_order_cases:
  assumes "connected db"
  shows "(get_next_order now db = Inr (None, db) \<and> (\<forall>r\<in>set (orders db). status r \<noteq> PENDING))
       \<or> (\<exists>best. best \<in> set (orders db) \<and> status best = PENDING
             \<and> (\<forall>r\<in>set (orders db). status r = PENDING \<longrightarrow> claim_key best \<le> claim_key r)
             \<and> get_next_order now db =
                 Inr (Some (best\<lparr>status := PROCESSING, updated_at := now, started_at := Some now\<rparr>),
                      db\<lparr>orders := map (\<lambda>r. if order_id r = order_id best
                            then r\<lparr>status := PROCESSING, updated_at := now, started_at := Some now\<rparr>
                            else r) (orders db)\<rparr>))"
proof (cases "sort_key claim_key (filter (\<lambda>r. status r = PENDING) (orders db))")
  case Nil
  then have "filter (\<lambda>r. status r = PENDING) (orders db) = []"
    by (metis length_sort list.size(3) length_0_conv)
  then have "\<forall>r\<in>set (orders db). status r \<noteq> PENDING"
    by (simp add: filter_empty_conv)
  with Nil assms show ?thesis by (simp add: get_next_order_def select_next_order_def)
next
  case (Cons y ys)
  from sort_key_head[OF Cons] have "y \<in> set (orders db)" "status y = PENDING"
    "\<forall>r\<in>set (orders db). status r = PENDING \<longrightarrow> claim_key y \<le> claim_key r"
    by auto
  with Cons assms show ?thesis
    by (auto simp: get_next_order_def select_next_order_def mark_processing_def)
qed

text \<open>
  A call of get_next_order that no other session overlaps, on a store that answers:
  it returns None and leaves the store as it is when no row is PENDING. Otherwise it
  returns a PENDING row \<open>best\<close> of the store, marked PROCESSING with
  \<open>started_at = updated_at = now\<close>: no PENDING row has a higher priority, and none of the
  same priority was created earlier. The store differs from the old one exactly in the
  row with that id, which carries the same marks, and a later call on the store this
  one left does not return that order.
\<close>

lemma get_next_order_alone:
  assumes "connected db"
  shows "((\<forall>r\<in>set (orders db). status r \<noteq> PENDING) \<longrightarrow> get_next_order now db = Inr (None, db))
     \<and> ((\<exists>r\<in>set (orders db). status r = PENDING) \<longrightarrow>
          (\<exists>best db'.
             get_next_order now db =
               Inr (Some (best\<lparr>status := PROCESSING, updated_at := now, started_at := Some now\<rparr>), db')
           \<and> best \<in> set (orders db) \<and> status best = PENDING
           \<and> (\<forall>r\<in>set (orders db). status r = PENDING \<longrightarrow>
                 priority_value (priority r) \<le> priority_value (priority best)
                 \<and> (priority r = priority best \<longrightarrow> created_at best \<le> created_at r))
           \<and> list_all2 (\<lambda>r r'. if order_id r = order_id best
                   then r' = r\<lparr>status := PROCESSING, updated_at := now, started_at := Some now\<rparr>
                   else r' = r) (orders db) (orders db')
           \<and> (\<forall>now2 again db2. get_next_order now2 db' = Inr (Some again, db2) \<longrightarrow>
                 order_id again \<noteq> order_id best)))"
proof (intro conjI impI)
  assume "\<forall>r\<in>set (orders db). status r \<noteq> PENDING"
  with get_next_order_cases[OF assms, of now] show "get_next_order now db = Inr (None, db)"
    by auto
next
  assume "\<exists>r\<in>set (orders db). status r = PENDING"
  with get_next_order_cases[OF assms, of now] obtain best where
    best: "best \<in> set (orders db)" "status best = PENDING"
    and least: "\<forall>r\<in>set (orders db). status r = PENDING \<longrightarrow> claim_key best \<le> claim_key r"
    and res: "get_next_order now db =
                 Inr (Some (best\<lparr>status := PROCESSING, updated_at := now, started_at := Some now\<rparr>),
                      db\<lparr>orders := map (\<lambda>r. if order_id r = order_id best
                            then r\<lparr>status := PROCESSING, updated_at := now, started_at := Some now\<rparr>
                            else r) (orders db)\<rparr>)"
    by auto
  define db' where "db' = db\<lparr>orders := map (\<lambda>r. if order_id r = order_id best
                            then r\<lparr>status := PROCESSING, updated_at := now, started_at := Some now\<rparr>
                            else r) (orders db)\<rparr>"
  have conn: "connected db'" using assms by (simp add: db'_def)
  have order: "\<forall>r\<in>set (orders db). status r = PENDING \<longrightarrow>
                 priority_value (priority r) \<le> priority_value (priority best)
                 \<and> (priority r = priority best \<longrightarrow> created_at best \<le> created_at r)"
    using least by (auto simp: claim_key_le)
  have rows: "list_all2 (\<lambda>r r'. if order_id r = order_id best
                   then r' = r\<lparr>status := PROCESSING, updated_at := now, started_at := Some now\<rparr>
                   else r' = r) (orders db) (orders db')"
    by (simp add: db'_def list_all2_map2 list_all2_same)
  have pend: "\<forall>r\<in>set (orders db'). status r = PENDING \<longrightarrow> order_id r \<noteq> order_id best"
    by (auto simp: db'_def)
  have once: "\<forall>now2 again db2. get_next_order now2 db' = Inr (Some again, db2) \<longrightarrow>
                 order_id again \<noteq> order_id best"
  proof (intro allI impI)
    fix now2 again db2
    assume a: "get_next_order now2 db' = Inr (Some again, db2)"
    with get_next_order_cases[OF conn, of now2] obtain b2 where
      "b2 \<in> set (orders db')" "status b2 = PENDING"
      "again = b2\<lparr>status := PROCESSING, updated_at := now2, started_at := Some now2\<rparr>"
      by auto
    with pend show "order_id again \<noteq> order_id best" by auto
  qed
  show "\<exists>best db'.
             get_next_order now db =
               Inr (Some (best\<lparr>status := PROCESSING, updated_at := now, started_at := Some now\<rparr>), db')
           \<and> best \<in> set (orders db) \<and> status best = PENDING
           \<and> (\<forall>r\<in>set (orders db). status r = PENDING \<longrightarrow>
                 priority_value (priority r) \<le> priority_value (priority best)
                 \<and> (priority r = priority best \<longrightarrow> created_at best \<le> created_at r))
           \<and> list_all2 (\<lambda>r r'. if order_id r = order_id best
                   then r' = r\<lparr>status := PROCESSING, updated_at := now, started_at := Some now\<rparr>
                   else r' = r) (orders db) (orders db')
           \<and> (\<forall>now2 again db2. get_next_order now2 db' = Inr (Some again, db2) \<longrightarrow>
                 order_id again \<noteq> order_id best)"
    using res best order rows once unfolding db'_def[symmetric] by blast
qed

text \<open>
  C1. Claiming an order is not atomic on the default engine. The query and the update are two
  statements; what keeps a second session from selecting the row that a first session
  has selected and not yet committed is \<open>with_for_update(skip_locked=True)\<close>, which
  SQLite ignores. With the three orders of the spec's scenario on SQLite, two
  overlapping calls both return order \<open>a\<close>, marked PROCESSING (the store has one
  PROCESSING row, claimed twice). On PostgreSQL the second call skips the locked row
  and returns the HIGH order \<open>c\<close>.
\<close>

theorem overlapping_claims_take_the_same_order:
  "map_sum id (\<lambda>(order1, order2, db). (map_option order_id order1, map_option order_id order2,
                                          map_option status order2, map status (orders db)))
     (overlapping_claims 10 11 three_orders)
     = Inr (Some ''a'', Some ''a'', Some PROCESSING, [PROCESSING, PENDING, PENDING])
   \<and> map_sum id (\<lambda>(order1, order2, db). (map_option order_id order1, map_option order_id order2,
                                          map_option status order2, map status (orders db)))
     (overlapping_claims 10 11 (three_orders\<lparr>use_postgres := True\<rparr>))
     = Inr (Some ''a'', Some ''c'', Some PROCESSING, [PROCESSING, PENDING, PROCESSING])"
  by (simp add: overlapping_claims_def select_next_order_def mark_processing_def
      three_orders_def pending_row_def claim_key_def less_eq_prod_def)

lemma cancel_order_rows:
  assumes "connected db"
  shows "\<exists>b db'. cancel_order now db oid = Inr (b, db')
      \<and> (b \<longleftrightarrow> (\<exists>r\<in>set (orders db). order_id r = oid \<and> status r = PENDING))
      \<and> list_all2 (\<lambda>r r'. if order_id r = oid \<and> status r = PENDING
                            then r' = r\<lparr>status := CANCELLED, updated_at := now\<rparr> else r' = r)
           (orders db) (orders db')"
  using assms
  by (auto simp: cancel_order_def filter_empty_conv list_all2_map2 list_all2_same)

text \<open>
  C6. On a store that answers, DatabaseManager.cancel_order returns True exactly when
  a row with this id is PENDING; such a row becomes CANCELLED (with \<open>updated_at = now\<close>)
  and every other row, a row with this id in another status included, is left as it
  is. OrderQueue.cancel_order returns that result and leaves the store as the store
  method left it; when the order has a task that is not done, the method cancels it,
  awaits it, removes the entry and only then asks the store, and afterwards the id has
  no entry in \<open>processing_orders\<close>. (When awaiting the cancelled task raises something
  other than CancelledError the method returns False without asking the store: that
  is the case \<open>AwaitRaised\<close>.)
\<close>

theorem cancel_order_pending_only:
  assumes "connected (queue_db q)" and "res \<noteq> AwaitRaised"
  shows "\<exists>b db'. cancel_order now (queue_db q) oid = Inr (b, db')
      \<and> (b \<longleftrightarrow> (\<exists>r\<in>set (orders (queue_db q)). order_id r = oid \<and> status r = PENDING))
      \<and> list_all2 (\<lambda>r r'. if order_id r = oid \<and> status r = PENDING
                            then r' = r\<lparr>status := CANCELLED, updated_at := now\<rparr> else r' = r)
           (orders (queue_db q)) (orders db')
      \<and> (\<exists>acts q'. queue_cancel_order now res oid q = (b, acts, q')
            \<and> queue_db q' = db'
            \<and> map_of (processing_orders q') oid = None
            \<and> (map_of (processing_orders q) oid = Some TaskRunning \<longrightarrow>
                 acts = [TaskCancel oid, TaskAwait oid, EntryDelete oid, StoreCancel oid]))"
proof -
  from cancel_order_rows[OF assms(1), of now oid] obtain b db' where
    c: "cancel_order now (queue_db q) oid = Inr (b, db')"
    and b: "b \<longleftrightarrow> (\<exists>r\<in>set (orders (queue_db q)). order_id r = oid \<and> status r = PENDING)"
    and l: "list_all2 (\<lambda>r r'. if order_id r = oid \<and> status r = PENDING
                            then r' = r\<lparr>status := CANCELLED, updated_at := now\<rparr> else r' = r)
           (orders (queue_db q)) (orders db')"
    by blast
  have "\<exists>acts q'. queue_cancel_order now res oid q = (b, acts, q')
            \<and> queue_db q' = db'
            \<and> map_of (processing_orders q') oid = None
            \<and> (map_of (processing_orders q) oid = Some TaskRunning \<longrightarrow>
                 acts = [TaskCancel oid, TaskAwait oid, EntryDelete oid, StoreCancel oid])"
    using c assms(2)
    by (cases res; cases "map_of (processing_orders q) oid")
       (auto simp: queue_cancel_order_def store_cancel_def AList.delete_conv')
  with c b l show ?thesis by blast
qed

text \<open>
  Cancelling the order whose task is in flight: the task is cancelled and awaited, the
  entry removed, and the store refuses (the row is PROCESSING and stays so).
\<close>

theorem cancel_order_pending_only_witness:
  "connected (queue_db one_in_flight) \<and> AwaitCancelled \<noteq> AwaitRaised
   \<and> fst (queue_cancel_order 50 AwaitCancelled ''a'' one_in_flight) = False
   \<and> fst (snd (queue_cancel_order 50 AwaitCancelled ''a'' one_in_flight))
       = [TaskCancel ''a'', TaskAwait ''a'', EntryDelete ''a'', StoreCancel ''a'']
   \<and> map status (orders (queue_db (snd (snd (queue_cancel_order 50 AwaitCancelled ''a'' one_in_flight)))))
       = [PROCESSING, PENDING]
   \<and> processing_orders (snd (snd (queue_cancel_order 50 AwaitCancelled ''a'' one_in_flight))) = []"
  using cancel_order_pending_only[of one_in_flight AwaitCancelled 50 "''a''"]
  by (simp add: one_in_flight_def pending_row_def queue_cancel_order_def store_cancel_def
      cancel_order_def)

section \<open>The order store: timestamps and statistics\<close>

text \<open>
  C7. The timestamps are not set once. update_order_status guards \<open>started_at\<close> with
  \<open>not order_model.started_at\<close>, but its branch for COMPLETED, FAILED and CANCELLED
  assigns \<open>completed_at = now\<close> on every call, and get_next_order assigns
  \<open>started_at = now\<close> whenever it claims. So the second write of COMPLETED moves
  \<open>completed_at\<close> from 20 to 21, and the claim after a retry moves \<open>started_at\<close> from 10
  to 40 (while \<open>completed_at\<close> of the failed run stays).
\<close>

theorem timestamps_overwritten:
  "timestamps ''a'' completed_once = [(Some 10, Some 20)]
   \<and> timestamps ''a'' completed_twice = [(Some 10, Some 21)]
   \<and> timestamps ''a'' failed_then_retried = [(Some 40, Some 20)]"
  by (simp add: and_then_def claim_next_def timestamps_def one_order_def completed_once_def
      completed_twice_def failed_then_retried_def pending_row_def get_next_order_def
      select_next_order_def mark_processing_def claim_key_def update_order_status_def update_row_def set_fields_def set_timestamps_def
      no_args_def)

lemma pow2_pos: "0 < pow2 e"
  by (simp add: pow2_def)

lemma round_half_even_nonneg: "0 \<le> x \<Longrightarrow> 0 \<le> round_half_even x"
  by (auto simp: round_half_even_def Let_def)

lemma to_double_pos_only: "0 < to_double x \<Longrightarrow> 0 < x"
proof (rule ccontr)
  assume pos: "0 < to_double x" and "\<not> 0 < x"
  then have "x \<le> 0" by simp
  show False
  proof (cases "x = 0")
    case True
    with pos show False by (simp add: to_double_def)
  next
    case False
    with \<open>x \<le> 0\<close> have neg: "x < 0" by simp
    define e where "e = floor_log2 \<bar>x\<bar> - 52"
    have "0 \<le> \<bar>x\<bar> / pow2 e" using pow2_pos[of e] by simp
    then have "0 \<le> (of_int (round_half_even (\<bar>x\<bar> / pow2 e)) :: rat) * pow2 e"
      using round_half_even_nonneg pow2_pos[of e] by simp
    moreover have "to_double x = - (of_int (round_half_even (\<bar>x\<bar> / pow2 e)) * pow2 e)"
      using neg False by (simp add: to_double_def e_def Let_def)
    ultimately show False using pos by simp
  qed
qed

lemma sum_durations_counted:
  "sum_durations (completed_orders_with_times rs) (t, n)
     = (foldl fadd t (counted_durations rs), n + length (counted_durations rs))"
proof (induction rs arbitrary: t n)
  case Nil
  show ?case by (simp add: counted_durations_def)
next
  case (Cons r rs)
  have later: "\<And>s c. started_at r = Some s \<Longrightarrow> completed_at r = Some c \<Longrightarrow>
      0 < total_seconds (c - s) \<Longrightarrow> s < c"
    using to_double_pos_only by (fastforce simp: total_seconds_def)
  show ?case
    using Cons.IH later
    by (auto simp: counted_durations_def duration_of_def Let_def split: option.splits)
qed

lemma no_times_no_durations:
  "completed_orders_with_times rs = [] \<Longrightarrow> counted_durations rs = []"
  by (induction rs) (auto simp: counted_durations_def split: option.splits if_splits)

lemma avg_time_counted:
  "avg_time rs = (if counted_durations rs = [] then 0
                  else fdiv (foldl fadd 0 (counted_durations rs))
                         (of_nat (length (counted_durations rs))))"
proof (cases "completed_orders_with_times rs")
  case Nil
  then show ?thesis by (simp add: avg_time_def no_times_no_durations)
next
  case (Cons x xs)
  have "sum_durations (x # xs) (0, 0)
     = (foldl fadd 0 (counted_durations rs), length (counted_durations rs))"
    using sum_durations_counted[of rs 0 0] Cons by simp
  with Cons show ?thesis by (simp add: avg_time_def)
qed

text \<open>
  C9, as the code has it. On a store that answers, \<open>success_rate\<close> is the percentage
  \<open>completed / (completed + failed) * 100\<close>, computed in floats, and 0 when no order is
  completed or failed; \<open>avg_processing_time\<close> is \<open>round(avg, 2)\<close> of the float mean of
  the counted durations, added up in the order of the rows, and 0 when there is none.
\<close>

theorem order_stats_rate_and_average:
  assumes "connected db"
  shows "success_rate (get_order_stats db) =
           Some (if count_status (orders db) COMPLETED + count_status (orders db) FAILED = 0 then 0
                 else fmul (fdiv (of_nat (count_status (orders db) COMPLETED))
                              (of_nat (count_status (orders db) COMPLETED
                                         + count_status (orders db) FAILED)))
                        100)
       \<and> avg_processing_time (get_order_stats db) =
           Some (round2 (if counted_durations (orders db) = [] then 0
                         else fdiv (foldl fadd 0 (counted_durations (orders db)))
                                (of_nat (length (counted_durations (orders db))))))"
  using assms by (simp add: get_order_stats_def Let_def avg_time_counted)

text \<open>
  The float operations on the values of the two stores that follow. A third is not a
  double: one completed order out of three gives the rate 33.33333333333333, and a
  duration of 0.333333 seconds is averaged and rounded to the double next to 0.33.
\<close>

lemma float_half: "fdiv 2 4 = 1 / 2"
  by code_simp
lemma float_fifty: "fmul (1 / 2) 100 = 50"
  by code_simp
lemma float_sixty_seconds: "total_seconds 60 = 60"
  by code_simp
lemma float_long_seconds: "total_seconds 8990 = 8990"
  by code_simp
lemma float_add_sixty: "fadd 0 60 = 60"
  by code_simp
lemma float_mean_sixty: "fdiv 60 1 = 60"
  by code_simp
lemma float_round_sixty: "round2 60 = 60"
  by code_simp
lemma float_third: "fdiv 1 3 = 6004799503160661 / 18014398509481984"
  by code_simp
lemma float_third_percent:
  "fmul (6004799503160661 / 18014398509481984) 100 = 2345624805922133 / 70368744177664"
  by code_simp
lemma float_third_seconds:
  "total_seconds (333333 / 1000000) = 3002396749180579 / 9007199254740992"
  by code_simp
lemma float_add_third:
  "fadd 0 (3002396749180579 / 9007199254740992) = 3002396749180579 / 9007199254740992"
  by code_simp
lemma float_mean_third:
  "fdiv (3002396749180579 / 9007199254740992) 1 = 3002396749180579 / 9007199254740992"
  by code_simp
lemma float_round_third:
  "round2 (3002396749180579 / 9007199254740992) = 5944751508129055 / 18014398509481984"
  by code_simp

lemma counted_two_finished: "counted_durations (orders two_finished) = [60]"
  by (simp add: two_finished_def pending_row_def counted_durations_def duration_of_def float_sixty_seconds float_long_seconds)

lemma counted_one_of_three: "counted_durations (orders one_of_three) = [3002396749180579 / 9007199254740992]"
  by code_simp

text \<open>
  The claim's formula \<open>completed / (completed + failed)\<close> would give 2 / 4 for two
  completed and two failed orders; the code gives 50.
\<close>

theorem success_rate_is_percentage:
  "success_rate (get_order_stats two_finished) = Some 50
   \<and> count_status (orders two_finished) COMPLETED = 2
   \<and> count_status (orders two_finished) FAILED = 2"
  by (simp add: get_order_stats_def two_finished_def pending_row_def count_status_def Let_def float_half float_fifty)

text \<open>
  One completed order of three, which took 0.333333 seconds; and the store with two
  completed orders, where the one that took 8990 seconds is not counted in the average.
\<close>

theorem order_stats_rate_and_average_witness:
  "connected one_of_three
   \<and> success_rate (get_order_stats one_of_three) = Some (2345624805922133 / 70368744177664)
   \<and> avg_processing_time (get_order_stats one_of_three) = Some (5944751508129055 / 18014398509481984)
   \<and> counted_durations (orders two_finished) = [60]
   \<and> avg_processing_time (get_order_stats two_finished) = Some 60"
proof -
  have c1: "connected one_of_three" by (simp add: one_of_three_def)
  have c2: "connected two_finished" by (simp add: two_finished_def)
  have n1: "count_status (orders one_of_three) COMPLETED = 1
            \<and> count_status (orders one_of_three) FAILED = 2"
    by (simp add: one_of_three_def pending_row_def count_status_def)
  show ?thesis
    using order_stats_rate_and_average[OF c1] order_stats_rate_and_average[OF c2] c1 n1
    by (simp add: counted_two_finished counted_one_of_three float_add_sixty float_mean_sixty float_round_sixty float_third float_third_percent float_add_third float_mean_third float_round_third)
qed

section \<open>The scheduler: the concurrency ceiling\<close>

lemma length_update_le: "length (AList.update k v al) \<le> Suc (length al)"
  by (induction al) auto

lemma length_delete_le: "length (AList.delete k al) \<le> length al"
  by (simp add: AList.delete_eq)

lemma length_delete_all_le: "length (delete_all ks al) \<le> length al"
proof (induction ks arbitrary: al)
  case Nil
  show ?case by simp
next
  case (Cons k ks)
  have "length (delete_all ks (AList.delete k al)) \<le> length (AList.delete k al)"
    by (rule Cons.IH)
  also have "\<dots> \<le> length al" by (rule length_delete_le)
  finally show ?case by simp
qed

lemma length_update_present:
  "map_of al k = Some v \<Longrightarrow> length (AList.update k w al) = length al"
  by (induction al) (auto split: if_splits)

lemma claim_and_start_capacity:
  assumes "within_capacity q" and "claim_and_start now q = Inr q'"
  shows "within_capacity q' \<and> max_concurrent q' = max_concurrent q"
proof (cases "queue_status q = RUNNING \<and> int (length (processing_orders q)) < max_concurrent q")
  case False
  with assms show ?thesis by (auto simp: claim_and_start_def)
next
  case True
  then have room: "int (Suc (length (processing_orders q))) \<le> max_concurrent q" by simp
  show ?thesis
  proof (cases "get_next_order now (queue_db q)")
    case (Inl e)
    with True assms show ?thesis by (simp add: claim_and_start_def)
  next
    case (Inr p)
    obtain r db' where p: "p = (r, db')" by (cases p)
    show ?thesis
    proof (cases r)
      case None
      with True assms Inr p show ?thesis by (auto simp: claim_and_start_def within_capacity_def)
    next
      case (Some order)
      have "int (length (AList.update (order_id order) TaskRunning (processing_orders q)))
              \<le> int (Suc (length (processing_orders q)))"
        using length_update_le[of "order_id order" TaskRunning "processing_orders q"] by linarith
      with room True assms Inr p Some show ?thesis
        by (auto simp: claim_and_start_def within_capacity_def)
    qed
  qed
qed

lemma cleanup_completed_tasks_capacity:
  assumes "within_capacity q" and "cleanup_completed_tasks q = Inr q'"
  shows "within_capacity q' \<and> max_concurrent q' = max_concurrent q"
proof -
  from assms(2) obtain ks where
    q': "q' = q\<lparr>processing_orders := delete_all ks (processing_orders q)\<rparr>"
    by (auto simp: cleanup_completed_tasks_def split: sum.splits)
  have "int (length (delete_all ks (processing_orders q))) \<le> int (length (processing_orders q))"
    using length_delete_all_le[of ks "processing_orders q"] by simp
  with assms(1) q' show ?thesis by (simp add: within_capacity_def)
qed

lemma queue_cancel_order_capacity:
  assumes "within_capacity q"
  shows "within_capacity (snd (snd (queue_cancel_order now res oid q)))
       \<and> max_concurrent (snd (snd (queue_cancel_order now res oid q))) = max_concurrent q"
proof -
  have d: "int (length (AList.delete oid (processing_orders q))) \<le> max_concurrent q"
    using assms length_delete_le[of oid "processing_orders q"]
    by (simp add: within_capacity_def)
  have u: "map_of (processing_orders q) oid = Some TaskRunning \<Longrightarrow>
      int (length (AList.update oid TaskRaised (processing_orders q))) \<le> max_concurrent q"
    using assms by (simp add: within_capacity_def length_update_present)
  show ?thesis
    using assms d u
    by (auto simp: queue_cancel_order_def store_cancel_def within_capacity_def
        split: option.splits sum.splits await_result.splits)
qed

lemma step_capacity:
  assumes "within_capacity q"
  shows "within_capacity (step e q) \<and> max_concurrent (step e q) = max_concurrent q"
proof (cases e)
  case (Claim now)
  with assms claim_and_start_capacity[OF assms, of now] show ?thesis
    by (auto split: sum.splits)
next
  case Sweep
  with assms cleanup_completed_tasks_capacity[OF assms] show ?thesis
    by (auto simp: within_capacity_def split: sum.splits)
next
  case (TaskEnds oid t)
  with assms show ?thesis
    by (auto simp: within_capacity_def length_update_present)
next
  case Pause
  with assms show ?thesis by (auto simp: pause_def within_capacity_def)
next
  case Resume
  with assms show ?thesis by (auto simp: resume_def within_capacity_def)
next
  case (CancelOrder now res oid)
  with queue_cancel_order_capacity[OF assms, of now res oid] show ?thesis by simp
qed

lemma run_capacity:
  "within_capacity q \<Longrightarrow>
   within_capacity (run evs q) \<and> max_concurrent (run evs q) = max_concurrent q"
proof (induction evs arbitrary: q)
  case Nil
  then show ?case by simp
next
  case (Cons e evs)
  from step_capacity[OF Cons.prems, of e]
  have s: "within_capacity (step e q)" and m: "max_concurrent (step e q) = max_concurrent q"
    by auto
  from Cons.IH[OF s] m show ?case by simp
qed

text \<open>
  C5. From any scheduler state in which \<open>processing_orders\<close> has at most
  \<open>max_concurrent\<close> entries (the state after construction is one, for a ceiling that is
  not negative), every sequence of loop halves, task endings, pauses, resumes and
  cancellations leads to a state with at most \<open>max_concurrent\<close> entries, and
  \<open>max_concurrent\<close> itself stays as it was. When the queue is not RUNNING or is at
  capacity, the claiming half of the iteration changes nothing (it only sleeps); and
  when it does change \<open>processing_orders\<close>, the queue was RUNNING and strictly below
  capacity, and the new entry is a task for an order that was PENDING in the store.
\<close>

theorem active_tasks_within_capacity:
  assumes "int (length (processing_orders q)) \<le> max_concurrent q"
  shows "int (length (processing_orders (run evs q))) \<le> max_concurrent q
       \<and> max_concurrent (run evs q) = max_concurrent q
       \<and> (queue_status q \<noteq> RUNNING \<or> max_concurrent q \<le> int (length (processing_orders q))
            \<longrightarrow> claim_and_start now q = Inr q)
       \<and> (\<forall>q'. claim_and_start now q = Inr q' \<and> processing_orders q' \<noteq> processing_orders q
            \<longrightarrow> queue_status q = RUNNING
                \<and> int (length (processing_orders q)) < max_concurrent q
                \<and> (\<exists>order. order \<in> set (orders (queue_db q)) \<and> status order = PENDING
                      \<and> processing_orders q' =
                          AList.update (order_id order) TaskRunning (processing_orders q)))"
proof -
  have w: "within_capacity q" using assms by (simp add: within_capacity_def)
  have a: "int (length (processing_orders (run evs q))) \<le> max_concurrent q
       \<and> max_concurrent (run evs q) = max_concurrent q"
    using run_capacity[OF w, of evs] by (simp add: within_capacity_def)
  have b: "queue_status q \<noteq> RUNNING \<or> max_concurrent q \<le> int (length (processing_orders q))
            \<longrightarrow> claim_and_start now q = Inr q"
    by (auto simp: claim_and_start_def)
  have c: "\<forall>q'. claim_and_start now q = Inr q' \<and> processing_orders q' \<noteq> processing_orders q
            \<longrightarrow> queue_status q = RUNNING
                \<and> int (length (processing_orders q)) < max_concurrent q
                \<and> (\<exists>order. order \<in> set (orders (queue_db q)) \<and> status order = PENDING
                      \<and> processing_orders q' =
                          AList.update (order_id order) TaskRunning (processing_orders q))"
  proof (intro allI impI)
    fix q'
    assume h: "claim_and_start now q = Inr q' \<and> processing_orders q' \<noteq> processing_orders q"
    then have g: "queue_status q = RUNNING \<and> int (length (processing_orders q)) < max_concurrent q"
      by (auto simp: claim_and_start_def split: if_splits)
    from h g obtain order db' where
      n: "get_next_order now (queue_db q) = Inr (Some order, db')"
      and p: "processing_orders q' = AList.update (order_id order) TaskRunning (processing_orders q)"
      by (auto simp: claim_and_start_def split: sum.splits option.splits prod.splits)
    from n have conn: "connected (queue_db q)"
      by (auto simp: get_next_order_def split: if_splits)
    from get_next_order_cases[OF conn, of now] n obtain best where
      "best \<in> set (orders (queue_db q))" "status best = PENDING"
      "order = best\<lparr>status := PROCESSING, updated_at := now, started_at := Some now\<rparr>"
      by auto
    with p have "\<exists>order. order \<in> set (orders (queue_db q)) \<and> status order = PENDING
                      \<and> processing_orders q' =
                          AList.update (order_id order) TaskRunning (processing_orders q)"
      by (intro exI[of _ best]) simp
    with g show "queue_status q = RUNNING
                \<and> int (length (processing_orders q)) < max_concurrent q
                \<and> (\<exists>order. order \<in> set (orders (queue_db q)) \<and> status order = PENDING
                      \<and> processing_orders q' =
                          AList.update (order_id order) TaskRunning (processing_orders q))"
      by blast
  qed
  from a b c show ?thesis by blast
qed


text \<open>
  With a ceiling of one and the three orders of the spec's scenario: a second claim
  while the first task runs changes nothing, and after that task has ended and been
  swept, the one running task is that of the HIGH order.
\<close>

theorem active_tasks_within_capacity_witness:
  "int (length (processing_orders (started_queue 1 three_orders)))
      \<le> max_concurrent (started_queue 1 three_orders)
   \<and> processing_orders
        (run [Claim 10, Claim 11, TaskEnds ''a'' TaskFinished, Sweep, Claim 12, Claim 13]
           (started_queue 1 three_orders)) = [(''c'', TaskRunning)]
   \<and> claim_and_start 11 (run [Claim 10] (started_queue 1 three_orders))
       = Inr (run [Claim 10] (started_queue 1 three_orders))"
  using active_tasks_within_capacity[of "started_queue 1 three_orders"
      "[Claim 10, Claim 11, TaskEnds ''a'' TaskFinished, Sweep, Claim 12, Claim 13]" 11]
  by (simp add: started_queue_def three_orders_def pending_row_def claim_and_start_def
      get_next_order_def select_next_order_def mark_processing_def claim_key_def
      less_eq_prod_def cleanup_completed_tasks_def)

section \<open>The agents: one call at a time\<close>

lemma guarded_new: "guarded k (new_agent k)"
  by (simp add: guarded_def new_agent_def)

lemma guarded_step:
  assumes "guarded k s" and "e \<noteq> Cleanup \<or> active s = []"
  shows "guarded k (agent_step e s)"
proof (cases e)
  case (Invoke c)
  with assms(1) show ?thesis
    by (auto simp: guarded_def process_order_enter_def)
next
  case (Return c)
  show ?thesis
  proof (cases "c \<in> set (active s)")
    case False
    with Return assms(1) show ?thesis by simp
  next
    case True
    with assms(1) have "active s = [c]"
      by (cases "active s") (auto simp: guarded_def)
    with Return assms(1) show ?thesis
      by (auto simp: guarded_def process_order_exit_def)
  qed
next
  case Cleanup
  with assms show ?thesis by (auto simp: guarded_def agent_cleanup_def)
qed

lemma guarded_trace:
  "guarded k s \<Longrightarrow> cleanup_when_idle evs s \<Longrightarrow> guarded k (agent_trace evs s)"
proof (induction evs arbitrary: s)
  case Nil
  then show ?case by simp
next
  case (Cons e evs)
  from Cons.prems have "guarded k (agent_step e s)" by (auto intro: guarded_step)
  moreover from Cons.prems have "cleanup_when_idle evs (agent_step e s)" by simp
  ultimately show ?case using Cons.IH by simp
qed

text \<open>
  C4, as the code has it. For either agent class: a call of \<open>process_order\<close> that finds
  \<open>_is_processing\<close> set enters no automation, leaves the agent as it is and returns
  \<open>success = False\<close> with the error "Another order is already being processed". As
  long as \<open>cleanup()\<close> runs only while no call is inside the automation, at most one
  call is inside it at any time, and every call the guard answered got that result.
\<close>

theorem process_order_one_at_a_time:
  assumes "cleanup_when_idle evs (new_agent k)"
  shows "length (active (agent_trace evs (new_agent k))) \<le> 1
       \<and> (\<forall>c r. (c, r) \<in> set (rejected (agent_trace evs (new_agent k))) \<longrightarrow>
              r = already_processing k \<and> \<not> success r
              \<and> result_error r = Some ''Another order is already being processed'')
       \<and> (is_processing (the_agent s) \<longrightarrow>
              process_order_enter (the_agent s) = (Some (already_processing (kind (the_agent s))), the_agent s)
              \<and> active (agent_step (Invoke c) s) = active s
              \<and> the_agent (agent_step (Invoke c) s) = the_agent s)"
proof -
  have g: "guarded k (agent_trace evs (new_agent k))"
    using guarded_trace[OF guarded_new assms] .
  then have a: "length (active (agent_trace evs (new_agent k))) \<le> 1"
    by (simp add: guarded_def)
  have b: "\<forall>c r. (c, r) \<in> set (rejected (agent_trace evs (new_agent k))) \<longrightarrow>
              r = already_processing k \<and> \<not> success r
              \<and> result_error r = Some ''Another order is already being processed''"
    using g by (force simp: guarded_def already_processing_def)
  have c: "is_processing (the_agent s) \<longrightarrow>
              process_order_enter (the_agent s) = (Some (already_processing (kind (the_agent s))), the_agent s)
              \<and> active (agent_step (Invoke c) s) = active s
              \<and> the_agent (agent_step (Invoke c) s) = the_agent s"
    by (simp add: process_order_enter_def)
  from a b c show ?thesis by blast
qed


text \<open>
  A second call during the first is rejected; after the first has returned and the
  agent was cleaned up, a third call enters.
\<close>

theorem process_order_one_at_a_time_witness:
  "cleanup_when_idle [Invoke 1, Invoke 2, Return 1, Cleanup, Invoke 3] (new_agent NovaActAgent)
   \<and> active (agent_trace [Invoke 1, Invoke 2, Return 1, Cleanup, Invoke 3] (new_agent NovaActAgent)) = [3]
   \<and> rejected (agent_trace [Invoke 1, Invoke 2, Return 1, Cleanup, Invoke 3] (new_agent NovaActAgent))
       = [(2, already_processing NovaActAgent)]"
  using process_order_one_at_a_time[of "[Invoke 1, Invoke 2, Return 1, Cleanup, Invoke 3]" NovaActAgent]
  by (simp add: new_agent_def process_order_enter_def process_order_exit_def agent_cleanup_def)

text \<open>
  \<open>cleanup()\<close> clears the flag whether or not a call is in flight: a call invoked after
  it, while call 1 has not returned, is not rejected, and two calls are inside the
  automation.
\<close>

theorem cleanup_reopens_the_guard:
  "active (agent_trace [Invoke 1, Cleanup, Invoke 2] (new_agent StrandsAgent)) = [2, 1]
   \<and> rejected (agent_trace [Invoke 1, Cleanup, Invoke 2] (new_agent StrandsAgent)) = []"
  by (simp add: new_agent_def process_order_enter_def agent_cleanup_def)

section \<open>The session registry: cleanup\<close>

text \<open>
  C2. The forced cleanup is not bounded. \<open>browser.close()\<close> and \<open>playwright.stop()\<close>
  run under three-second timeouts, but \<open>browser_client.stop()\<close> is called directly
  (under the comment "Clean up browser client with timeout") and nothing wraps the
  whole operation (under the comment "Use timeout for the entire cleanup operation").
  With a client whose \<open>stop()\<close> never returns, the forced call never returns either:
  it blocks holding the lock, with the session still in both maps and still
  \<open>active\<close>. With a client whose \<open>stop()\<close> raises, the call returns and the entry is
  removed, but the handle is not marked \<open>terminated\<close>: that assignment follows
  \<open>stop()\<close> inside the same \<open>try\<close>.
\<close>

theorem forced_cleanup_blocks_on_client_stop:
  "returned (cleanup_session False (registry_with Hangs None) ''a'' True) = Hangs
   \<and> map fst (active_sessions (service (cleanup_session False (registry_with Hangs None) ''a'' True))) = [''a'']
   \<and> map fst (active_clients (service (cleanup_session False (registry_with Hangs None) ''a'' True))) = [''a'']
   \<and> map_option bs_status (handle (cleanup_session False (registry_with Hangs None) ''a'' True)) = Some ''active''
   \<and> returned (cleanup_session False (registry_with (Raises ''gone'') None) ''a'' True) = Returns ()
   \<and> active_sessions (service (cleanup_session False (registry_with (Raises ''gone'') None) ''a'' True)) = []
   \<and> map_option bs_status (handle (cleanup_session False (registry_with (Raises ''gone'') None) ''a'' True)) = Some ''active''"
  by (simp add: cleanup_session_def registry_with_def session_with_def client_with_stop_def
      stop_browser_client_def remove_session_def check_warnings_def cleanup_playwright_def
      release_warnings_def)

text \<open>
  What the forced cleanup does guarantee: when the client's \<open>stop()\<close> returns or
  raises, the call returns and the session id is in neither map afterwards, however
  the Playwright calls end.
\<close>

lemma forced_cleanup_removes:
  assumes "map_of (active_sessions svc) sid = Some session"
    and "stop_browser_client session \<noteq> Hangs"
  shows "returned (cleanup_session in_loop svc sid True) = Returns ()
       \<and> map_of (active_sessions (service (cleanup_session in_loop svc sid True))) sid = None
       \<and> map_of (active_clients (service (cleanup_session in_loop svc sid True))) sid = None"
  using assms
  by (cases "stop_browser_client session")
     (simp_all add: cleanup_session_def remove_session_def Let_def AList.delete_conv')


lemma cleanup_session_other:
  assumes "other \<noteq> sid"
  shows "map_of (active_sessions (service (cleanup_session in_loop svc other force))) sid
           = map_of (active_sessions svc) sid
       \<and> map_of (active_clients (service (cleanup_session in_loop svc other force))) sid
           = map_of (active_clients svc) sid
       \<and> db_manager (service (cleanup_session in_loop svc other force)) = db_manager svc"
  using assms
  by (auto simp: cleanup_session_def remove_session_def Let_def AList.delete_conv'
      split: option.splits outcome.splits)

lemma cleanup_each_other:
  "sid \<notin> set sids \<Longrightarrow>
   map_of (active_sessions (fst (cleanup_each in_loop sids svc))) sid = map_of (active_sessions svc) sid
   \<and> map_of (active_clients (fst (cleanup_each in_loop sids svc))) sid = map_of (active_clients svc) sid"
proof (induction sids arbitrary: svc)
  case Nil
  show ?case by simp
next
  case (Cons other sids)
  then have ne: "other \<noteq> sid" and rest: "sid \<notin> set sids" by auto
  note o = cleanup_session_other[OF ne, of in_loop svc False]
  show ?case
  proof (cases "returned (cleanup_session in_loop svc other False)")
    case Hangs
    with o show ?thesis by (simp add: Let_def)
  next
    case (Returns u)
    with o Cons.IH[OF rest, of "service (cleanup_session in_loop svc other False)"]
    show ?thesis by (simp add: Let_def)
  next
    case (Raises e)
    with o Cons.IH[OF rest, of "service (cleanup_session in_loop svc other False)"]
    show ?thesis by (simp add: Let_def)
  qed
qed

lemma protected_not_expired: "is_protected svc sid \<Longrightarrow> sid \<notin> set (expired_sessions now svc)"
  by (auto simp: expired_sessions_def)

text \<open>
  C3, as the code has it. When the service has a database manager that answers and the order whose id is
  the session id has status \<open>requires_human\<close>, \<open>cleanup_session\<close> without \<open>force\<close>
  returns at once: the registry is unchanged, no session object was touched (so none
  was marked terminated and no resource was released) and nothing was logged as a
  warning. \<open>cleanup_expired_sessions\<close> does not list the session as expired, however
  long it has been idle, and leaves its entries in both maps as they are.
\<close>

theorem protected_session_survives:
  assumes "db_manager svc = Some db" and "get_order db sid = Inr (Some order)"
    and "status order = REQUIRES_HUMAN"
  shows "cleanup_session in_loop svc sid False
           = \<lparr>service = svc, handle = None, warnings = [], returned = Returns ()\<rparr>
       \<and> sid \<notin> set (expired_sessions now svc)
       \<and> map_of (active_sessions (fst (cleanup_expired_sessions in_loop now svc))) sid
           = map_of (active_sessions svc) sid
       \<and> map_of (active_clients (fst (cleanup_expired_sessions in_loop now svc))) sid
           = map_of (active_clients svc) sid"
proof -
  have p: "is_protected svc sid" using assms by (simp add: is_protected_def)
  then have a: "cleanup_session in_loop svc sid False
           = \<lparr>service = svc, handle = None, warnings = [], returned = Returns ()\<rparr>"
    by (simp add: cleanup_session_def)
  have b: "sid \<notin> set (expired_sessions now svc)" using p by (rule protected_not_expired)
  from cleanup_each_other[OF b, of in_loop svc] a b show ?thesis
    by (simp add: cleanup_expired_sessions_def)
qed


text \<open>
  Both sessions have been idle for 10000 seconds: the sweep removes \<open>b\<close> and keeps
  \<open>a\<close>, whose order waits for a human.
\<close>

theorem protected_session_survives_witness:
  "db_manager two_sessions = Some human_store
   \<and> map_sum id (map_option status) (get_order human_store ''a'') = Inr (Some REQUIRES_HUMAN)
   \<and> 1800 < 10000 - last_accessed (session_with ''a'' (client_with_stop (Returns ())) 0)
   \<and> expired_sessions 10000 two_sessions = [''b'']
   \<and> active_sessions (fst (cleanup_expired_sessions False 10000 two_sessions))
       = [(''a'', session_with ''a'' (client_with_stop (Returns ())) 0)]
   \<and> service (cleanup_session False two_sessions ''a'' False) = two_sessions"
  using protected_session_survives[of two_sessions human_store "''a''"
      "(pending_row ''a'' NORMAL 0)\<lparr>status := REQUIRES_HUMAN, started_at := Some 0,
                   requires_human_review := True\<rparr>" False 10000]
  by (simp add: two_sessions_def human_store_def pending_row_def get_order_def
      cleanup_expired_sessions_def expired_sessions_def is_protected_def cleanup_session_def
      session_with_def client_with_stop_def stop_browser_client_def remove_session_def Let_def)

text \<open>
  The protection needs the registry to hold a database manager that answers. The
  registry is constructed with \<open>db_manager = None\<close> unless one is passed, and a lookup
  that raises is logged and ignored. In both cases the session of order \<open>a\<close>, which
  waits for a human in the store, is cleaned up by the call without \<open>force\<close> (removed
  from both maps and marked terminated) and by the sweep.
\<close>

theorem unwired_registry_protects_nothing:
  "map_sum id (map_option status) (get_order human_store ''a'') = Inr (Some REQUIRES_HUMAN)
   \<and> active_sessions (service (cleanup_session False (registry_with (Returns ()) None) ''a'' False)) = []
   \<and> active_clients (service (cleanup_session False (registry_with (Returns ()) None) ''a'' False)) = []
   \<and> map_option bs_status (handle (cleanup_session False (registry_with (Returns ()) None) ''a'' False))
       = Some ''terminated''
   \<and> active_sessions (fst (cleanup_expired_sessions False 10000 (registry_with (Returns ()) None))) = []
   \<and> active_sessions (service (cleanup_session False
        (registry_with (Returns ()) (Some (human_store\<lparr>connected := False\<rparr>))) ''a'' False)) = []
   \<and> warnings (cleanup_session False
        (registry_with (Returns ()) (Some (human_store\<lparr>connected := False\<rparr>))) ''a'' False)
       = [''Could not check order status'', ''Browser close timed out'']"
  by (simp add: registry_with_def session_with_def client_with_stop_def human_store_def
      pending_row_def get_order_def cleanup_session_def is_protected_def check_warnings_def
      cleanup_playwright_def release_warnings_def stop_browser_client_def remove_session_def
      cleanup_expired_sessions_def expired_sessions_def Let_def)

section \<open>The session registry: live view and idle expiry\<close>

lemma update_entry:
  assumes "distinct (map fst al)" and "(k, x) \<in> set (AList.update k v al)"
  shows "x = v"
proof -
  have d: "distinct (map fst (AList.update k v al))" using assms(1) by (simp add: AList.distinct_update)
  from assms(2) d have "map_of (AList.update k v al) k = Some x" by simp
  then show ?thesis by (simp add: AList.update_conv')
qed

lemma get_live_view_url_state:
  assumes "map_of (active_sessions svc) sid = Some session"
  shows "fst (get_live_view_url now svc sid expires)
           = svc\<lparr>active_sessions :=
                 AList.update sid (session\<lparr>last_accessed := now\<rparr>) (active_sessions svc)\<rparr>"
  using assms by (simp add: get_live_view_url_def)

lemma expired_only_idle:
  "s \<in> set (expired_sessions now svc) \<Longrightarrow>
     \<not> is_protected svc s \<and> (\<exists>x. (s, x) \<in> set (active_sessions svc) \<and> 1800 < now - last_accessed x)"
  by (auto simp: expired_sessions_def)

text \<open>
  C10. For a session id in \<open>active_sessions\<close> (a dictionary: its keys are distinct),
  \<open>get_live_view_url\<close> leaves the registry with that session's \<open>last_accessed\<close> set to
  the time of the call, whatever the browser client then does. A sweep at a time at
  most 1800 seconds later does not list the session as expired and keeps it, protected
  or not. The sweep lists only sessions that are not protected and whose
  \<open>last_accessed\<close> is more than 1800 seconds old, and leaves every session it does not
  list as it is.
\<close>

theorem live_view_resets_idle_clock:
  assumes "distinct (map fst (active_sessions svc))"
    and "map_of (active_sessions svc) sid = Some session"
    and "now2 - now \<le> 1800"
  shows "map_of (active_sessions (fst (get_live_view_url now svc sid expires))) sid
           = Some (session\<lparr>last_accessed := now\<rparr>)
       \<and> sid \<notin> set (expired_sessions now2 (fst (get_live_view_url now svc sid expires)))
       \<and> map_of (active_sessions
            (fst (cleanup_expired_sessions in_loop now2 (fst (get_live_view_url now svc sid expires))))) sid
           = Some (session\<lparr>last_accessed := now\<rparr>)
       \<and> (\<forall>s\<in>set (expired_sessions now2 svc).
             \<not> is_protected svc s
             \<and> (\<exists>x. (s, x) \<in> set (active_sessions svc) \<and> 1800 < now2 - last_accessed x))
       \<and> (\<forall>s. s \<notin> set (expired_sessions now2 svc) \<longrightarrow>
             map_of (active_sessions (fst (cleanup_expired_sessions in_loop now2 svc))) s
               = map_of (active_sessions svc) s)"
proof -
  define svc' where "svc' = fst (get_live_view_url now svc sid expires)"
  have st: "svc' = svc\<lparr>active_sessions :=
                 AList.update sid (session\<lparr>last_accessed := now\<rparr>) (active_sessions svc)\<rparr>"
    unfolding svc'_def using assms(2) by (rule get_live_view_url_state)
  have a: "map_of (active_sessions svc') sid = Some (session\<lparr>last_accessed := now\<rparr>)"
    by (simp add: st AList.update_conv')
  have b: "sid \<notin> set (expired_sessions now2 svc')"
  proof
    assume "sid \<in> set (expired_sessions now2 svc')"
    from expired_only_idle[OF this] obtain x where
      x: "(sid, x) \<in> set (active_sessions svc')" and old: "1800 < now2 - last_accessed x"
      by blast
    from x have "x = session\<lparr>last_accessed := now\<rparr>"
      using update_entry[OF assms(1)] by (simp add: st)
    with old assms(3) show False by simp
  qed
  have c: "map_of (active_sessions (fst (cleanup_expired_sessions in_loop now2 svc'))) sid
           = Some (session\<lparr>last_accessed := now\<rparr>)"
    using cleanup_each_other[OF b, of in_loop svc'] a by (simp add: cleanup_expired_sessions_def)
  have d: "\<forall>s\<in>set (expired_sessions now2 svc).
             \<not> is_protected svc s
             \<and> (\<exists>x. (s, x) \<in> set (active_sessions svc) \<and> 1800 < now2 - last_accessed x)"
    using expired_only_idle by blast
  have e: "\<forall>s. s \<notin> set (expired_sessions now2 svc) \<longrightarrow>
             map_of (active_sessions (fst (cleanup_expired_sessions in_loop now2 svc))) s
               = map_of (active_sessions svc) s"
    using cleanup_each_other[of _ "expired_sessions now2 svc" in_loop svc]
    by (simp add: cleanup_expired_sessions_def)
  from a b c d e show ?thesis unfolding svc'_def by blast
qed


text \<open>
  Session \<open>a\<close>, last accessed at time 0, is swept at time 10000; after a live-view
  query at time 9000 the same sweep keeps it.
\<close>

theorem live_view_resets_idle_clock_witness:
  "distinct (map fst (active_sessions (registry_with (Returns ()) None)))
   \<and> map_of (active_sessions (registry_with (Returns ()) None)) ''a''
       = Some (session_with ''a'' (client_with_stop (Returns ())) 0)
   \<and> (10000::rat) - 9000 \<le> 1800
   \<and> active_sessions (fst (cleanup_expired_sessions False 10000 (registry_with (Returns ()) None))) = []
   \<and> snd (get_live_view_url 9000 (registry_with (Returns ()) None) ''a'' 300)
       = Returns (LiveView ''https://live.example/view'' ''a'' ''browser-1'' 300 False (1280, 720) ''about:blank'')
   \<and> map (\<lambda>p. (fst p, last_accessed (snd p)))
        (active_sessions (fst (cleanup_expired_sessions False 10000
           (fst (get_live_view_url 9000 (registry_with (Returns ()) None) ''a'' 300)))))
       = [(''a'', 9000)]"
  using live_view_resets_idle_clock[of "registry_with (Returns ()) None" "''a''"
      "session_with ''a'' (client_with_stop (Returns ())) 0" 10000 9000 300 False]
  by (simp add: registry_with_def session_with_def client_with_stop_def get_live_view_url_def
      live_view_result_def find_live_view_url_def method1_def method2_def method3_def truthy_def
      cleanup_expired_sessions_def expired_sessions_def is_protected_def cleanup_session_def
      stop_browser_client_def remove_session_def Let_def)

section \<open>The session registry: resolution\<close>






end
